(* ===== verification/Prelude.thy ===== *)
theory Prelude
  imports Main "HOL-Library.Char_ord"
begin

text \<open>
  Shared vocabulary of the development: Go strings as byte strings and the
  functions of the packages \<open>strings\<close>, \<open>strconv\<close> and \<open>fmt\<close> that the program
  calls, Go errors as values with their wrapping chain, and the generic facts on
  lists and sums the components use.

  A Go string is a sequence of bytes, and so is an Isabelle \<open>string\<close> (a list of
  8-bit characters); lengths and positions are byte counts on both sides.
\<close>

named_theorems go_simps \<open>evaluation of the modelled Go library functions\<close>
named_theorems step_simps \<open>what one operation does to the state of a component\<close>

type_synonym go_string = string
type_synonym instant = int
type_synonym duration = int

section \<open>Characters\<close>

abbreviation char_code :: "char \<Rightarrow> nat" where
  "char_code c \<equiv> of_char c"

definition byte :: "nat \<Rightarrow> char" where
  "byte n = char_of n"

definition is_digit :: "char \<Rightarrow> bool" where
  "is_digit c = (48 \<le> char_code c \<and> char_code c \<le> 57)"

definition is_upper :: "char \<Rightarrow> bool" where
  "is_upper c = (65 \<le> char_code c \<and> char_code c \<le> 90)"

definition is_lower :: "char \<Rightarrow> bool" where
  "is_lower c = (97 \<le> char_code c \<and> char_code c \<le> 122)"

definition is_word :: "char \<Rightarrow> bool" where
  "is_word c = (is_digit c \<or> is_upper c \<or> is_lower c \<or> c = CHR ''_'')"

definition upper_char :: "char \<Rightarrow> char" where
  "upper_char c = (if is_lower c then char_of (char_code c - 32) else c)"

definition lower_char :: "char \<Rightarrow> char" where
  "lower_char c = (if is_upper c then char_of (char_code c + 32) else c)"

lemma char_code_mod [simp]: "(char_code c - n) mod 256 = char_code c - n"
  by (rule mod_less) (meson less_imp_diff_less nat_of_char_less_256)

lemma of_char_upper:
  "char_code (upper_char c) = (if is_lower c then char_code c - 32 else char_code c)"
  by (simp add: upper_char_def)

lemma of_char_lower:
  "char_code (lower_char c) = (if is_upper c then char_code c + 32 else char_code c)"
  by (simp add: lower_char_def is_upper_def)

lemma is_digit_upper [simp]: "is_digit (upper_char c) = is_digit c"
  by (auto simp: is_digit_def of_char_upper is_lower_def)

lemma upper_char_digit [simp]: "is_digit c \<Longrightarrow> upper_char c = c"
  by (auto simp: is_digit_def upper_char_def is_lower_def)

lemma is_word_digit [simp]: "is_digit c \<Longrightarrow> is_word c"
  by (simp add: is_word_def)

section \<open>Package strings\<close>

definition HasPrefix :: "go_string \<Rightarrow> go_string \<Rightarrow> bool" where
  "HasPrefix s p = (take (length p) s = p)"

definition TrimPrefix :: "go_string \<Rightarrow> go_string \<Rightarrow> go_string" where
  "TrimPrefix s p = (if HasPrefix s p then drop (length p) s else s)"

fun Join :: "go_string list \<Rightarrow> go_string \<Rightarrow> go_string" where
  "Join [] sep = []"
| "Join [x] sep = x"
| "Join (x # y # zs) sep = x @ sep @ Join (y # zs) sep"

lemma HasPrefix_append [simp]: "HasPrefix (p @ s) p"
  by (simp add: HasPrefix_def)

lemma HasPrefix_iff: "HasPrefix s p \<longleftrightarrow> (\<exists>t. s = p @ t)"
  unfolding HasPrefix_def by (metis append_eq_conv_conj append_take_drop_id)

lemma TrimPrefix_append [simp]: "TrimPrefix (p @ s) p = s"
  by (simp add: TrimPrefix_def)

section \<open>Package strconv and the verb \<open>%d\<close>\<close>

fun show_nat :: "nat \<Rightarrow> go_string" where
  "show_nat n = (if n < 10 then [char_of (48 + n)]
                 else show_nat (n div 10) @ [char_of (48 + n mod 10)])"

declare show_nat.simps [simp del]

definition show_int :: "int \<Rightarrow> go_string" where
  "show_int i = (if i < 0 then CHR ''-'' # show_nat (nat (- i)) else show_nat (nat i))"

fun digits_value :: "nat \<Rightarrow> go_string \<Rightarrow> nat" where
  "digits_value acc [] = acc"
| "digits_value acc (c # cs) = digits_value (10 * acc + (char_code c - 48)) cs"

definition int64_min :: int where "int64_min = - 9223372036854775808"
definition int64_max :: int where "int64_max = 9223372036854775807"

definition int64_ok :: "int \<Rightarrow> bool" where
  "int64_ok i = (int64_min \<le> i \<and> i \<le> int64_max)"

text \<open>
  \<open>strconv.Atoi\<close> (and \<open>ParseInt\<close> in base 10): an optional sign, at least one
  decimal digit and nothing else, a value in the range of a 64-bit integer; any
  other input is an error.
\<close>

definition Atoi :: "go_string \<Rightarrow> int option" where
  "Atoi s =
     (let neg = HasPrefix s ''-'';
          body = (if neg \<or> HasPrefix s ''+'' then tl s else s)
      in if body = [] \<or> \<not> list_all is_digit body then None
         else let v = int (digits_value 0 body); i = (if neg then - v else v)
              in if int64_ok i then Some i else None)"

lemma is_digit_char_of: "n < 10 \<Longrightarrow> is_digit (char_of (48 + n :: nat))"
  by (simp add: is_digit_def)

lemma show_nat_digits: "list_all is_digit (show_nat n) \<and> show_nat n \<noteq> []"
proof (induction n rule: show_nat.induct)
  case (1 n)
  then show ?case
    by (cases "n < 10") (simp_all add: show_nat.simps [of n] is_digit_char_of)
qed

lemma digits_value_append:
  "digits_value acc (xs @ [c]) = 10 * digits_value acc xs + (char_code c - 48)"
  by (induction acc xs rule: digits_value.induct) simp_all

lemma digits_value_show_nat [simp]: "digits_value 0 (show_nat n) = n"
proof (induction n rule: show_nat.induct)
  case (1 n)
  then show ?case
    by (cases "n < 10") (simp_all add: show_nat.simps [of n] digits_value_append)
qed

lemma show_nat_inj: "show_nat m = show_nat n \<Longrightarrow> m = n"
  by (metis digits_value_show_nat)

lemma show_nat_no_sign: "show_nat n \<noteq> CHR ''-'' # s" "show_nat n \<noteq> CHR ''+'' # s"
  using show_nat_digits [of n] by (auto simp: is_digit_def)

lemma Atoi_show_int: "int64_ok i \<Longrightarrow> Atoi (show_int i) = Some i"
proof (cases "i < 0")
  case True
  assume "int64_ok i"
  with True show ?thesis
    using show_nat_digits [of "nat (- i)"]
    by (simp add: Atoi_def show_int_def HasPrefix_def Let_def)
next
  case False
  have nosign: "\<not> HasPrefix (show_nat (nat i)) ''-''" "\<not> HasPrefix (show_nat (nat i)) ''+''"
    using show_nat_no_sign by (auto simp: HasPrefix_iff)
  assume "int64_ok i"
  with False nosign show ?thesis
    using show_nat_digits [of "nat i"]
    by (simp add: Atoi_def show_int_def Let_def)
qed

lemma show_int_inj: "show_int i = show_int j \<Longrightarrow> i = j"
proof -
  have *: "CHR ''-'' # s \<noteq> show_nat n" for s n
    using show_nat_no_sign(1) [of n s] by metis
  assume "show_int i = show_int j"
  then have "i < 0 \<longleftrightarrow> j < 0" and "nat i = nat j" and "nat (- i) = nat (- j)"
    using * show_nat_no_sign(1) by (auto simp: show_int_def dest!: show_nat_inj split: if_splits)
  then show ?thesis by linarith
qed

lemma show_int_no_colon: "CHR '':'' \<notin> set (show_int i)"
  using show_nat_digits [of "nat i"] show_nat_digits [of "nat (- i)"]
  by (auto simp: show_int_def list_all_iff is_digit_def)

text \<open>
  The verb \<open>%q\<close> on the strings it is used for here: quotes, backslashes and control
  bytes are escaped, every other byte is kept (bytes outside ASCII belong to printable
  runes).
\<close>

definition hex_digit :: "nat \<Rightarrow> char" where
  "hex_digit n = (if n < 10 then byte (48 + n) else byte (87 + n))"

definition quote_char :: "char \<Rightarrow> go_string" where
  "quote_char c =
     (let n = char_code c in
      if c = CHR 0x22 \<or> c = CHR 0x5C then [CHR 0x5C, c]
      else if n = 7 then [CHR 0x5C, CHR ''a''] else if n = 8 then [CHR 0x5C, CHR ''b'']
      else if n = 12 then [CHR 0x5C, CHR ''f''] else if n = 10 then [CHR 0x5C, CHR ''n'']
      else if n = 13 then [CHR 0x5C, CHR ''r''] else if n = 9 then [CHR 0x5C, CHR ''t'']
      else if n = 11 then [CHR 0x5C, CHR ''v'']
      else if n < 32 \<or> n = 127 then
        [CHR 0x5C, CHR ''x'', hex_digit (n div 16), hex_digit (n mod 16)]
      else [c])"

definition quote :: "go_string \<Rightarrow> go_string" where
  "quote s = [CHR 0x22] @ concat (map quote_char s) @ [CHR 0x22]"

section \<open>Errors\<close>

text \<open>
  A Go error is a value; \<open>fmt.Errorf\<close> with \<open>%w\<close> wraps one in a message prefix, and
  \<open>errors.As\<close> walks the chain of wrapped errors. \<open>JiraHTTPError\<close> is the error
  struct of \<open>internal/integration/jira/types.go\<close>.
\<close>

datatype go_error =
    Errorf go_string
  | Wrap go_string go_error
  | JiraHTTPError int go_string

type_synonym 'a result = "go_error + 'a"

fun err_text :: "go_error \<Rightarrow> go_string" where
  "err_text (Errorf m) = m"
| "err_text (Wrap m e) = m @ '': '' @ err_text e"
| "err_text (JiraHTTPError c b) = ''jira returned '' @ show_int c @ '': '' @ b"

fun as_jira :: "go_error \<Rightarrow> (int \<times> go_string) option" where
  "as_jira (Errorf m) = None"
| "as_jira (Wrap m e) = as_jira e"
| "as_jira (JiraHTTPError c b) = Some (c, b)"

section \<open>Lists\<close>

lemma append_colon_split:
  assumes "a @ CHR '':'' # x = b @ CHR '':'' # y" "CHR '':'' \<notin> set a" "CHR '':'' \<notin> set b"
  shows "a = b \<and> x = y"
proof -
  have *: "takeWhile (\<lambda>c. c \<noteq> CHR '':'') (u @ CHR '':'' # v) = u" if "CHR '':'' \<notin> set u" for u v
    using that by (induction u) auto
  from assms have "a = b" by (metis *)
  with assms(1) show ?thesis by simp
qed

lemma append_colon_split_last:
  assumes "a @ CHR '':'' # x = b @ CHR '':'' # y" "CHR '':'' \<notin> set x" "CHR '':'' \<notin> set y"
  shows "a = b \<and> x = y"
  using append_colon_split [of "rev x" "rev a" "rev y" "rev b"] assms
  by (metis append_Cons append_Nil append_assoc rev.simps(2) rev_append rev_rev_ident set_rev)

lemma find_Some_set: "List.find P xs = Some x \<Longrightarrow> x \<in> set xs \<and> P x"
  by (auto simp: find_Some_iff)

lemma find_append:
  "List.find P (xs @ ys) = (case List.find P xs of None \<Rightarrow> List.find P ys | Some x \<Rightarrow> Some x)"
  by (induction xs) auto

lemma map_of_distinct_in:
  "distinct (map fst xs) \<Longrightarrow> (k, v) \<in> set xs \<Longrightarrow> map_of xs k = Some v"
  by (simp add: map_of_eq_Some_iff)

end
