(* ===== verification/Domain.thy ===== *)
theory Domain
  imports Prelude
begin

text \<open>
  The value types of \<open>internal/domain/domain.go\<close>: events, jobs, audit entries and the
  string-valued enumerations. Each enumeration has the constants of the source and one
  constructor for any other string, since a Go value of such a type (the zero value
  included) need not be one of its constants.
\<close>

datatype EventType =
    EventPush
  | EventMROpened
  | EventMRMerged
  | EventMRDraft
  | EventEmojiAward
  | EventUnrecognized
  | EventTypeOther go_string

datatype WorkflowState =
    StateInProgress
  | StateCodeReview
  | StateRFQA
  | StateDone
  | StateOther go_string

datatype JobStatus =
    JobPending
  | JobRunning
  | JobCompleted
  | JobFailed
  | JobDead
  | JobStatusOther go_string

datatype JobType =
    JobJiraTransition
  | JobTypeOther go_string

primrec EventType_str :: "EventType \<Rightarrow> go_string" where
  "EventType_str EventPush = ''push''"
| "EventType_str EventMROpened = ''mr_opened''"
| "EventType_str EventMRMerged = ''mr_merged''"
| "EventType_str EventMRDraft = ''mr_draft''"
| "EventType_str EventEmojiAward = ''emoji_award''"
| "EventType_str EventUnrecognized = ''unrecognized''"
| "EventType_str (EventTypeOther s) = s"

primrec WorkflowState_str :: "WorkflowState \<Rightarrow> go_string" where
  "WorkflowState_str StateInProgress = ''in_progress''"
| "WorkflowState_str StateCodeReview = ''code_review''"
| "WorkflowState_str StateRFQA = ''rfqa''"
| "WorkflowState_str StateDone = ''done''"
| "WorkflowState_str (StateOther s) = s"

primrec JobStatus_str :: "JobStatus \<Rightarrow> go_string" where
  "JobStatus_str JobPending = ''pending''"
| "JobStatus_str JobRunning = ''running''"
| "JobStatus_str JobCompleted = ''completed''"
| "JobStatus_str JobFailed = ''failed''"
| "JobStatus_str JobDead = ''dead''"
| "JobStatus_str (JobStatusOther s) = s"

primrec JobType_str :: "JobType \<Rightarrow> go_string" where
  "JobType_str JobJiraTransition = ''jira_transition''"
| "JobType_str (JobTypeOther s) = s"

text \<open>The conversions back, as \<open>scanEvent\<close> and \<open>scanJob\<close> apply them to a text column.\<close>

definition EventType_of :: "go_string \<Rightarrow> EventType" where
  "EventType_of s =
     (if s = ''push'' then EventPush
      else if s = ''mr_opened'' then EventMROpened
      else if s = ''mr_merged'' then EventMRMerged
      else if s = ''mr_draft'' then EventMRDraft
      else if s = ''emoji_award'' then EventEmojiAward
      else if s = ''unrecognized'' then EventUnrecognized
      else EventTypeOther s)"

definition WorkflowState_of :: "go_string \<Rightarrow> WorkflowState" where
  "WorkflowState_of s =
     (if s = ''in_progress'' then StateInProgress
      else if s = ''code_review'' then StateCodeReview
      else if s = ''rfqa'' then StateRFQA
      else if s = ''done'' then StateDone
      else StateOther s)"

definition JobStatus_of :: "go_string \<Rightarrow> JobStatus" where
  "JobStatus_of s =
     (if s = ''pending'' then JobPending
      else if s = ''running'' then JobRunning
      else if s = ''completed'' then JobCompleted
      else if s = ''failed'' then JobFailed
      else if s = ''dead'' then JobDead
      else JobStatusOther s)"

definition JobType_of :: "go_string \<Rightarrow> JobType" where
  "JobType_of s = (if s = ''jira_transition'' then JobJiraTransition else JobTypeOther s)"

lemma enum_str_of [simp]:
  "EventType_str (EventType_of s) = s" "WorkflowState_str (WorkflowState_of s) = s"
  "JobStatus_str (JobStatus_of s) = s" "JobType_str (JobType_of s) = s"
  by (simp_all add: EventType_of_def WorkflowState_of_def JobStatus_of_def JobType_of_def)

record NormalizedEvent =
  ev_ID :: go_string
  IdempotencyKey :: go_string
  ev_Type :: EventType
  IssueKeys_of :: "go_string list"
  SourceBranch :: go_string
  TargetBranch :: go_string
  MRTitle :: go_string
  MRIID :: int
  ProjectID :: int
  AuthorEmail :: go_string
  RawPayload :: go_string
  ReceivedAt :: instant
  CommitMessages :: "go_string list"
  EmojiName :: go_string
  MRState :: go_string

record Job =
  job_ID :: go_string
  job_EventID :: go_string
  job_Type :: JobType
  job_Status :: JobStatus
  job_IssueKey :: go_string
  TargetState :: WorkflowState
  job_Payload :: go_string
  Attempts :: int
  MaxAttempts :: int
  LastError :: go_string
  NextRunAt :: instant
  job_CreatedAt :: instant
  CompletedAt :: "instant option"

record AuditEntry =
  aud_ID :: go_string
  aud_EventID :: go_string
  aud_JobID :: go_string
  Action :: go_string
  aud_IssueKey :: go_string
  Detail :: go_string
  aud_CreatedAt :: instant

text \<open>The zero value of \<open>time.Time\<close> is the start of year 1.\<close>

definition zero_instant :: instant where
  "zero_instant = - 62135596800000000000"

text \<open>The zero value \<open>domain.NormalizedEvent{}\<close>.\<close>

definition zero_event :: NormalizedEvent where
  "zero_event =
     \<lparr>ev_ID = '''', IdempotencyKey = '''', ev_Type = EventTypeOther '''', IssueKeys_of = [],
      SourceBranch = '''', TargetBranch = '''', MRTitle = '''', MRIID = 0, ProjectID = 0,
      AuthorEmail = '''', RawPayload = '''', ReceivedAt = zero_instant, CommitMessages = [],
      EmojiName = '''', MRState = ''''\<rparr>"

end
