(* ===== verification/Go_Regexp.thy ===== *)
theory Go_Regexp
  imports Prelude
begin

text \<open>
  The fragment of the package \<open>regexp\<close> that
  \<^verbatim>\<open>(?i)\bKEY-(\d+)\b\<close> needs: a backtracking matcher with the leftmost-first
  (greedy) preference of the package over four kinds of items, and
  \<open>FindAllString(text, -1)\<close>.

  Under \<^verbatim>\<open>(?i)\<close> an ASCII letter matches its two cases and, for \<open>s\<close> and \<open>k\<close>, the
  one rune outside ASCII of its simple-folding orbit: U+017F (bytes C5 BF) and U+212A
  (bytes E2 84 AA). A lead byte of UTF-8 is never a continuation byte, so matching on
  bytes finds exactly the matches on runes. The word boundary of the package is the
  ASCII one.
\<close>

datatype re_item =
    WordBoundary
  | FoldLit char
  | Digits      \<comment> \<open>one or more decimal digits, greedy\<close>
  | DigitsMore  \<comment> \<open>the rest of a run of digits, possibly empty\<close>

type_synonym pattern = "re_item list"

definition long_s :: go_string where "long_s = [byte 197, byte 191]"
definition kelvin :: go_string where "kelvin = [byte 226, byte 132, byte 170]"

definition fold_step :: "char \<Rightarrow> go_string \<Rightarrow> nat option" where
  "fold_step c s =
     (if s \<noteq> [] \<and> upper_char (hd s) = upper_char c then Some 1
      else if upper_char c = CHR ''S'' \<and> HasPrefix s long_s then Some 2
      else if upper_char c = CHR ''K'' \<and> HasPrefix s kelvin then Some 3
      else None)"

definition word_at :: "go_string \<Rightarrow> bool" where
  "word_at s = (s \<noteq> [] \<and> is_word (hd s))"

definition word_before :: "char option \<Rightarrow> bool" where
  "word_before prev = (case prev of None \<Rightarrow> False | Some c \<Rightarrow> is_word c)"

definition at_boundary :: "char option \<Rightarrow> go_string \<Rightarrow> bool" where
  "at_boundary prev s = (word_before prev \<noteq> word_at s)"

definition last_of :: "char option \<Rightarrow> go_string \<Rightarrow> char option" where
  "last_of prev xs = (if xs = [] then prev else Some (last xs))"

text \<open>
  The matcher takes the byte before the position (none at the start of the text) and
  the text from the position on, and returns the length of the preferred match.
\<close>

function re_match :: "pattern \<Rightarrow> char option \<Rightarrow> go_string \<Rightarrow> nat option" where
  "re_match [] prev s = Some 0"
| "re_match (WordBoundary # ps) prev s =
     (if at_boundary prev s then re_match ps prev s else None)"
| "re_match (FoldLit c # ps) prev s =
     (case fold_step c s of
        None \<Rightarrow> None
      | Some n \<Rightarrow> map_option ((+) n) (re_match ps (last_of prev (take n s)) (drop n s)))"
| "re_match (Digits # ps) prev s =
     (case s of
        [] \<Rightarrow> None
      | d # ds \<Rightarrow>
          if is_digit d then map_option Suc (re_match (DigitsMore # ps) (Some d) ds) else None)"
| "re_match (DigitsMore # ps) prev s =
     (case s of
        [] \<Rightarrow> re_match ps prev s
      | d # ds \<Rightarrow>
          if is_digit d then
            (case re_match (DigitsMore # ps) (Some d) ds of
               Some n \<Rightarrow> Some (Suc n)
             | None \<Rightarrow> re_match ps prev s)
          else re_match ps prev s)"
  by pat_completeness auto
termination
  by (relation "measures [\<lambda>(ps, prev, s). length ps + length s, \<lambda>(ps, prev, s). length ps]") auto

text \<open>
  Successive non-overlapping matches from left to right. A match of length 0 would not
  be reported at the position of the previous one; the patterns of this program have
  none (\<open>issue_pattern_pos\<close> below).
\<close>

function find_all :: "pattern \<Rightarrow> char option \<Rightarrow> go_string \<Rightarrow> go_string list" where
  "find_all ps prev [] = []"
| "find_all ps prev (c # cs) =
     (case re_match ps prev (c # cs) of
        Some (Suc n) \<Rightarrow>
          take (Suc n) (c # cs) # find_all ps (last_of prev (take (Suc n) (c # cs))) (drop n cs)
      | Some 0 \<Rightarrow> find_all ps (Some c) cs
      | None \<Rightarrow> find_all ps (Some c) cs)"
  by pat_completeness auto
termination
  by (relation "measure (\<lambda>(ps, prev, s). length s)") auto

definition FindAllString :: "pattern \<Rightarrow> go_string \<Rightarrow> go_string list" where
  "FindAllString ps s = find_all ps None s"

section \<open>Literals\<close>

definition ascii :: "go_string \<Rightarrow> bool" where
  "ascii s = list_all (\<lambda>c. char_code c < 128) s"

definition is_cont :: "char \<Rightarrow> bool" where
  "is_cont c = (128 \<le> char_code c \<and> char_code c < 192)"

definition leads :: "go_string \<Rightarrow> nat" where
  "leads s = length (filter (\<lambda>c. \<not> is_cont c) s)"

lemma leads_append [simp]: "leads (xs @ ys) = leads xs + leads ys"
  by (simp add: leads_def)

lemma char_code_byte [simp]: "n < 256 \<Longrightarrow> char_code (byte n) = n"
  by (simp add: byte_def)

lemma upper_char_cases:
  "upper_char d = upper_char c \<Longrightarrow> char_code c < 128 \<Longrightarrow> char_code d < 128"
proof -
  assume eq: "upper_char d = upper_char c" and c: "char_code c < 128"
  have "char_code (upper_char d) = char_code (upper_char c)" using eq by simp
  with c show "char_code d < 128"
    by (auto simp: of_char_upper is_lower_def split: if_splits)
qed

lemma upper_dash [simp]: "upper_char d = CHR ''-'' \<longleftrightarrow> d = CHR ''-''"
proof
  assume "upper_char d = CHR ''-''"
  then have "char_code (upper_char d) = 45" by simp
  then have "char_code d = char_code CHR ''-''"
    by (auto simp: of_char_upper is_lower_def split: if_splits)
  then show "d = CHR ''-''" by (simp only: of_char_eq_iff)
qed (simp add: upper_char_def is_lower_def)

lemma dash_upper [simp]: "CHR ''-'' = upper_char d \<longleftrightarrow> d = CHR ''-''"
  using upper_dash by metis

lemma upper_char_dash [simp]: "upper_char CHR ''-'' = CHR ''-''"
  by (simp only: upper_dash)

lemma fold_step_Some:
  assumes "fold_step c s = Some n"
  shows "0 < n" "n \<le> length s" "take n s \<noteq> []"
  using assms by (auto simp: fold_step_def HasPrefix_def long_s_def kelvin_def Suc_le_eq
      split: if_splits dest!: arg_cong [where f = length])

lemma fold_step_leads:
  assumes "fold_step c s = Some n" "char_code c < 128"
  shows "leads (take n s) = 1" "\<not> is_cont (hd s)"
proof -
  have "leads (take n s) = 1 \<and> \<not> is_cont (hd s)"
    using assms
    by (cases s) (auto simp: fold_step_def HasPrefix_iff long_s_def kelvin_def leads_def is_cont_def
        split: if_splits dest!: upper_char_cases)
  then show "leads (take n s) = 1" "\<not> is_cont (hd s)" by simp_all
qed

lemma fold_runes_dash: "CHR ''-'' \<notin> set long_s" "CHR ''-'' \<notin> set kelvin"
proof -
  have "char_code (CHR ''-'') \<notin> of_char ` set long_s" "char_code (CHR ''-'') \<notin> of_char ` set kelvin"
    by (simp_all add: long_s_def kelvin_def)
  then show "CHR ''-'' \<notin> set long_s" "CHR ''-'' \<notin> set kelvin" by blast+
qed

lemma fold_step_dash:
  assumes "fold_step c s = Some n" "c \<noteq> CHR ''-''"
  shows "CHR ''-'' \<notin> set (take n s)"
proof -
  consider "n = 1" "s \<noteq> []" "upper_char (hd s) = upper_char c"
    | "n = 2" "HasPrefix s long_s" | "n = 3" "HasPrefix s kelvin"
    using assms(1) by (auto simp: fold_step_def split: if_splits)
  then show ?thesis
  proof cases
    case 1
    with assms(2) show ?thesis
      by (cases s) auto
  next
    case 2
    then have "take n s = long_s" by (simp add: HasPrefix_def long_s_def numeral_2_eq_2)
    then show ?thesis by (simp add: fold_runes_dash)
  next
    case 3
    then have "take n s = kelvin" by (simp add: HasPrefix_def kelvin_def numeral_3_eq_3)
    then show ?thesis by (simp add: fold_runes_dash)
  qed
qed

fun fold_prefix :: "go_string \<Rightarrow> go_string \<Rightarrow> nat option" where
  "fold_prefix [] s = Some 0"
| "fold_prefix (k # ks) s =
     (case fold_step k s of
        None \<Rightarrow> None
      | Some n \<Rightarrow> map_option ((+) n) (fold_prefix ks (drop n s)))"

lemma last_of_append: "last_of (last_of prev xs) ys = last_of prev (xs @ ys)"
  by (simp add: last_of_def)

lemma map_option_plus_0 [simp]: "map_option ((+) (0 :: nat)) x = x"
  by (cases x) simp_all

lemma re_match_lits:
  "re_match (map FoldLit ks @ ps) prev s =
     (case fold_prefix ks s of
        None \<Rightarrow> None
      | Some n \<Rightarrow> map_option ((+) n) (re_match ps (last_of prev (take n s)) (drop n s)))"
proof (induction ks arbitrary: prev s)
  case Nil
  then show ?case by (simp add: last_of_def)
next
  case (Cons k ks)
  show ?case
    by (auto simp: Cons.IH option.map_comp comp_def add.assoc last_of_append take_add
        drop_drop add.commute split: option.split intro!: option.map_cong)
qed

lemma fold_prefix_le: "fold_prefix ks s = Some n \<Longrightarrow> n \<le> length s"
proof (induction ks arbitrary: s n)
  case (Cons k ks)
  then obtain a b where a: "fold_step k s = Some a" and b: "fold_prefix ks (drop a s) = Some b"
    and n: "n = a + b" by (auto split: option.splits)
  from Cons.IH [OF b] fold_step_Some(2) [OF a] n show ?case by simp
qed simp

lemma fold_prefix_leads:
  "fold_prefix ks s = Some n \<Longrightarrow> ascii ks \<Longrightarrow> leads (take n s) = length ks"
proof (induction ks arbitrary: s n)
  case (Cons k ks)
  then obtain a b where a: "fold_step k s = Some a" and b: "fold_prefix ks (drop a s) = Some b"
    and n: "n = a + b" by (auto split: option.splits)
  have "ascii ks" "char_code k < 128" using Cons.prems(2) by (simp_all add: ascii_def)
  then show ?case
    using Cons.IH [OF b] fold_step_leads(1) [OF a] n by (simp add: take_add)
qed (simp add: leads_def)

lemma fold_prefix_dash:
  "fold_prefix ks s = Some n \<Longrightarrow> CHR ''-'' \<notin> set ks \<Longrightarrow> CHR ''-'' \<notin> set (take n s)"
proof (induction ks arbitrary: s n)
  case (Cons k ks)
  then obtain a b where a: "fold_step k s = Some a" and b: "fold_prefix ks (drop a s) = Some b"
    and n: "n = a + b" by (auto split: option.splits)
  with Cons show ?case using fold_step_dash [OF a] by (auto simp: take_add)
qed simp

section \<open>Runs of digits\<close>

lemma re_match_digits_more:
  assumes "is_digit d"
  shows "re_match [DigitsMore, WordBoundary] (Some d) s =
     (if word_at (dropWhile is_digit s) then None else Some (length (takeWhile is_digit s)))"
  using assms
proof (induction s arbitrary: d)
  case Nil
  then show ?case by (simp add: at_boundary_def word_before_def word_at_def)
next
  case (Cons c cs)
  then show ?case
    by (cases "is_digit c") (auto simp: at_boundary_def word_before_def word_at_def)
qed

text \<open>
  A greedy run of digits before a word boundary is the whole run: giving digits back
  never reaches a boundary, so backtracking changes nothing.
\<close>

lemma re_match_digits:
  "re_match [Digits, WordBoundary] prev s =
     (if takeWhile is_digit s = [] \<or> word_at (dropWhile is_digit s) then None
      else Some (length (takeWhile is_digit s)))"
  by (cases s) (auto simp: re_match_digits_more simp del: re_match.simps(5))

end
