(* ===== verification/Go_Json.thy ===== *)
theory Go_Json
  imports Go_Regexp "HOL-Library.Monad_Syntax"
begin

text \<open>
  The decoding half of \<open>encoding/json\<close>: the scanner and parser on bytes (white space,
  literals, numbers, strings with escapes, surrogate pairs and the replacement of invalid
  UTF-8, the nesting limit), and the rules by which a value is stored into strings,
  integers, booleans, slices, pointers and structs (null leaves a field alone, a field
  name matches up to case folding, later members win, a value of the wrong type is an
  error, unknown members are skipped); and the validity of UTF-8.

  Numbers keep the text of their literal, as the decoder does until it knows the target
  type. A slice that a repeated member shortens and then grows again is taken to grow
  with zero values.
\<close>

section \<open>Values\<close>

datatype json =
    JNull
  | JBool bool
  | JNum go_string
  | JStr go_string
  | JArr "json list"
  | JObj "(go_string \<times> json) list"

section \<open>Scanning strings\<close>

definition is_cont_in :: "nat \<Rightarrow> nat \<Rightarrow> go_string \<Rightarrow> nat \<Rightarrow> bool" where
  "is_cont_in lo hi s i = (i < length s \<and> lo \<le> char_code (s ! i) \<and> char_code (s ! i) \<le> hi)"

text \<open>Length of the UTF-8 sequence at the head of the text, 0 when it is not valid.\<close>

definition rune_len :: "go_string \<Rightarrow> nat" where
  "rune_len s =
     (if s = [] then 0
      else let c = char_code (hd s); cont = is_cont_in 128 191 s in
        if c < 128 then 1
        else if 194 \<le> c \<and> c \<le> 223 \<and> cont 1 then 2
        else if c = 224 \<and> is_cont_in 160 191 s 1 \<and> cont 2 then 3
        else if (225 \<le> c \<and> c \<le> 236 \<or> c = 238 \<or> c = 239) \<and> cont 1 \<and> cont 2 then 3
        else if c = 237 \<and> is_cont_in 128 159 s 1 \<and> cont 2 then 3
        else if c = 240 \<and> is_cont_in 144 191 s 1 \<and> cont 2 \<and> cont 3 then 4
        else if 241 \<le> c \<and> c \<le> 243 \<and> cont 1 \<and> cont 2 \<and> cont 3 then 4
        else if c = 244 \<and> is_cont_in 128 143 s 1 \<and> cont 2 \<and> cont 3 then 4
        else 0)"

definition encode_rune :: "nat \<Rightarrow> go_string" where
  "encode_rune r =
     (if r < 128 then [byte r]
      else if r < 2048 then [byte (192 + r div 64), byte (128 + r mod 64)]
      else if r < 65536 then
        [byte (224 + r div 4096), byte (128 + r div 64 mod 64), byte (128 + r mod 64)]
      else [byte (240 + r div 262144), byte (128 + r div 4096 mod 64),
            byte (128 + r div 64 mod 64), byte (128 + r mod 64)])"

definition replacement :: go_string where
  "replacement = [byte 239, byte 191, byte 189]"

definition hex_value :: "char \<Rightarrow> nat option" where
  "hex_value c =
     (let n = char_code c in
      if is_digit c then Some (n - 48)
      else if 97 \<le> n \<and> n \<le> 102 then Some (n - 87)
      else if 65 \<le> n \<and> n \<le> 70 then Some (n - 55)
      else None)"

fun hex4 :: "go_string \<Rightarrow> nat option" where
  "hex4 (a # b # c # d # _) =
     do { w \<leftarrow> hex_value a; x \<leftarrow> hex_value b; y \<leftarrow> hex_value c; z \<leftarrow> hex_value d;
          Some (4096 * w + 256 * x + 16 * y + z) }"
| "hex4 _ = None"

definition getu4 :: "go_string \<Rightarrow> nat option" where
  "getu4 s = (if HasPrefix s [CHR 0x5C, CHR ''u''] then hex4 (drop 2 s) else None)"

text \<open>What an escape stands for, and how many bytes it takes after the backslash.\<close>

definition unescape :: "go_string \<Rightarrow> (go_string \<times> nat) option" where
  "unescape s =
     (case s of [] \<Rightarrow> None | e # r \<Rightarrow>
        if e = CHR 0x22 \<or> e = CHR 0x5C \<or> e = CHR ''/'' then Some ([e], 1)
        else if e = CHR ''b'' then Some ([byte 8], 1)
        else if e = CHR ''f'' then Some ([byte 12], 1)
        else if e = CHR ''n'' then Some ([byte 10], 1)
        else if e = CHR ''r'' then Some ([byte 13], 1)
        else if e = CHR ''t'' then Some ([byte 9], 1)
        else if e = CHR ''u'' then
          (case hex4 r of
             None \<Rightarrow> None
           | Some u \<Rightarrow>
               if 55296 \<le> u \<and> u < 57344 then
                 (case getu4 (drop 4 r) of
                    Some v \<Rightarrow>
                      if u < 56320 \<and> 56320 \<le> v \<and> v < 57344
                      then Some (encode_rune ((u - 55296) * 1024 + (v - 56320) + 65536), 11)
                      else Some (replacement, 5)
                  | None \<Rightarrow> Some (replacement, 5))
               else Some (encode_rune u, 5))
        else None)"

text \<open>The rest of a string literal, from after its opening quote.\<close>

function p_str :: "go_string \<Rightarrow> (go_string \<times> go_string) option" where
  "p_str [] = None"
| "p_str (c # s) =
     (if c = CHR 0x22 then Some ([], s)
      else if c = CHR 0x5C then
        (case unescape s of
           None \<Rightarrow> None
         | Some (x, n) \<Rightarrow> map_option (\<lambda>(y, r). (x @ y, r)) (p_str (drop n s)))
      else if char_code c < 32 then None
      else if rune_len (c # s) = 0 then map_option (\<lambda>(y, r). (replacement @ y, r)) (p_str s)
      else map_option (\<lambda>(y, r). (take (rune_len (c # s)) (c # s) @ y, r))
             (p_str (drop (rune_len (c # s) - 1) s)))"
  by pat_completeness auto
termination
  by (relation "measure length") (auto simp: less_Suc_eq_le)

section \<open>Numbers\<close>

definition starts :: "char \<Rightarrow> go_string \<Rightarrow> bool" where
  "starts c s = (s \<noteq> [] \<and> hd s = c)"

definition p_frac :: "go_string \<Rightarrow> (go_string \<times> go_string) option" where
  "p_frac s =
     (if starts CHR ''.'' s then
        let ds = takeWhile is_digit (tl s) in
        if ds = [] then None else Some (CHR ''.'' # ds, dropWhile is_digit (tl s))
      else Some ([], s))"

definition p_exp :: "go_string \<Rightarrow> (go_string \<times> go_string) option" where
  "p_exp s =
     (if starts CHR ''e'' s \<or> starts CHR ''E'' s then
        let sg = (if starts CHR ''+'' (tl s) \<or> starts CHR ''-'' (tl s) then [hd (tl s)] else []);
            r = drop (length sg) (tl s); ds = takeWhile is_digit r
        in if ds = [] then None else Some (hd s # sg @ ds, dropWhile is_digit r)
      else Some ([], s))"

definition p_num :: "go_string \<Rightarrow> (go_string \<times> go_string) option" where
  "p_num s =
     (let sg = (if starts CHR ''-'' s then ''-'' else []); s1 = drop (length sg) s;
          run = takeWhile is_digit s1; ip = (if starts CHR ''0'' run then ''0'' else run)
      in if ip = [] then None
         else do {
           (fr, s3) \<leftarrow> p_frac (drop (length ip) s1);
           (ex, s4) \<leftarrow> p_exp s3;
           Some (sg @ ip @ fr @ ex, s4) })"

section \<open>Values from bytes\<close>

definition is_space :: "char \<Rightarrow> bool" where
  "is_space c = (char_code c \<in> {9, 10, 13, 32})"

definition skip_ws :: "go_string \<Rightarrow> go_string" where
  "skip_ws s = dropWhile is_space s"

definition expect :: "char \<Rightarrow> go_string \<Rightarrow> go_string option" where
  "expect c s = (let r = skip_ws s in if starts c r then Some (tl r) else None)"

text \<open>
  One unit of fuel per nested call: of two nested calls at least one reads a byte, so a fuel
  of more than twice the length of the text is enough (\<open>p_value_fuel\<close>). The second
  argument is the number of levels that may still be opened.
\<close>

fun p_value :: "nat \<Rightarrow> nat \<Rightarrow> go_string \<Rightarrow> (json \<times> go_string) option"
and p_members :: "nat \<Rightarrow> nat \<Rightarrow> go_string \<Rightarrow> ((go_string \<times> json) list \<times> go_string) option"
and p_elems :: "nat \<Rightarrow> nat \<Rightarrow> go_string \<Rightarrow> (json list \<times> go_string) option"
where
  "p_value 0 d s = None"
| "p_value (Suc f) d s =
     (let r = skip_ws s in
      if starts CHR ''{'' r then
        (if d = 0 then None
         else case expect CHR ''}'' (tl r) of
                Some t \<Rightarrow> Some (JObj [], t)
              | None \<Rightarrow> map_option (\<lambda>(ms, t). (JObj ms, t)) (p_members f (d - 1) (tl r)))
      else if starts CHR ''['' r then
        (if d = 0 then None
         else case expect CHR '']'' (tl r) of
                Some t \<Rightarrow> Some (JArr [], t)
              | None \<Rightarrow> map_option (\<lambda>(vs, t). (JArr vs, t)) (p_elems f (d - 1) (tl r)))
      else if starts (CHR 0x22) r then map_option (\<lambda>(x, t). (JStr x, t)) (p_str (tl r))
      else if HasPrefix r ''null'' then Some (JNull, drop 4 r)
      else if HasPrefix r ''true'' then Some (JBool True, drop 4 r)
      else if HasPrefix r ''false'' then Some (JBool False, drop 5 r)
      else map_option (\<lambda>(x, t). (JNum x, t)) (p_num r))"
| "p_members 0 d s = None"
| "p_members (Suc f) d s =
     do {
       r \<leftarrow> expect (CHR 0x22) s;
       (k, r1) \<leftarrow> p_str r;
       r2 \<leftarrow> expect CHR '':'' r1;
       (v, r3) \<leftarrow> p_value f d r2;
       (case expect CHR '','' r3 of
          Some r4 \<Rightarrow> map_option (\<lambda>(ms, t). ((k, v) # ms, t)) (p_members f d r4)
        | None \<Rightarrow> map_option (\<lambda>t. ([(k, v)], t)) (expect CHR ''}'' r3)) }"
| "p_elems 0 d s = None"
| "p_elems (Suc f) d s =
     do {
       (v, r3) \<leftarrow> p_value f d s;
       (case expect CHR '','' r3 of
          Some r4 \<Rightarrow> map_option (\<lambda>(vs, t). (v # vs, t)) (p_elems f d r4)
        | None \<Rightarrow> map_option (\<lambda>t. ([v], t)) (expect CHR '']'' r3)) }"

definition max_nesting_depth :: nat where "max_nesting_depth = 10000"

text \<open>\<open>json.Unmarshal\<close>: the whole input is one value.\<close>

definition json_parse :: "go_string \<Rightarrow> json option" where
  "json_parse s =
     (case p_value (2 * length s + 2) max_nesting_depth s of
        None \<Rightarrow> None
      | Some (v, r) \<Rightarrow> if skip_ws r = [] then Some v else None)"

text \<open>\<open>Decoder.Decode\<close>: the first value of a stream; what follows is left unread.\<close>

definition json_decode_first :: "go_string \<Rightarrow> json option" where
  "json_decode_first s = map_option fst (p_value (2 * length s + 2) max_nesting_depth s)"

section \<open>Storing a value\<close>

text \<open>Field names are ASCII; a member name matches one exactly or up to case folding.\<close>

definition name_matches :: "go_string \<Rightarrow> go_string \<Rightarrow> bool" where
  "name_matches field key = (key = field \<or> fold_prefix field key = Some (length key))"

fun dec_string :: "json \<Rightarrow> go_string \<Rightarrow> go_string option" where
  "dec_string (JStr s) cur = Some s"
| "dec_string JNull cur = Some cur"
| "dec_string _ cur = None"

fun dec_int :: "json \<Rightarrow> int \<Rightarrow> int option" where
  "dec_int (JNum lit) cur = Atoi lit"
| "dec_int JNull cur = Some cur"
| "dec_int _ cur = None"

fun dec_bool :: "json \<Rightarrow> bool \<Rightarrow> bool option" where
  "dec_bool (JBool b) cur = Some b"
| "dec_bool JNull cur = Some cur"
| "dec_bool _ cur = None"

fun dec_members ::
    "('r \<Rightarrow> go_string \<Rightarrow> json \<Rightarrow> 'r option) \<Rightarrow> 'r \<Rightarrow> (go_string \<times> json) list \<Rightarrow> 'r option" where
  "dec_members field r [] = Some r"
| "dec_members field r ((k, v) # ms) =
     (case field r k v of None \<Rightarrow> None | Some r' \<Rightarrow> dec_members field r' ms)"

fun dec_struct ::
    "('r \<Rightarrow> go_string \<Rightarrow> json \<Rightarrow> 'r option) \<Rightarrow> json \<Rightarrow> 'r \<Rightarrow> 'r option" where
  "dec_struct field (JObj ms) r = dec_members field r ms"
| "dec_struct field JNull r = Some r"
| "dec_struct field _ r = None"

fun dec_elems :: "(json \<Rightarrow> 'r \<Rightarrow> 'r option) \<Rightarrow> 'r \<Rightarrow> json list \<Rightarrow> 'r list \<Rightarrow> 'r list option" where
  "dec_elems elem zero [] cur = Some []"
| "dec_elems elem zero (v # vs) cur =
     (case elem v (if cur = [] then zero else hd cur) of
        None \<Rightarrow> None
      | Some x \<Rightarrow> map_option ((#) x) (dec_elems elem zero vs (tl cur)))"

fun dec_slice :: "(json \<Rightarrow> 'r \<Rightarrow> 'r option) \<Rightarrow> 'r \<Rightarrow> json \<Rightarrow> 'r list \<Rightarrow> 'r list option" where
  "dec_slice elem zero (JArr vs) cur = dec_elems elem zero vs cur"
| "dec_slice elem zero JNull cur = Some []"
| "dec_slice elem zero _ cur = None"

fun dec_pointer :: "(json \<Rightarrow> 'r \<Rightarrow> 'r option) \<Rightarrow> 'r \<Rightarrow> json \<Rightarrow> 'r option \<Rightarrow> 'r option option" where
  "dec_pointer elem zero JNull cur = Some None"
| "dec_pointer elem zero v cur =
     map_option Some (elem v (case cur of None \<Rightarrow> zero | Some r \<Rightarrow> r))"

text \<open>The store into one field: the new record, or an error.\<close>

definition set_field :: "('v \<Rightarrow> 'r) \<Rightarrow> 'v option \<Rightarrow> 'r option" where
  "set_field upd v = map_option upd v"

section \<open>Sample documents\<close>

text \<open>The documents the examples run on are written with a tilde for the quotation mark.\<close>

definition quoted :: "go_string \<Rightarrow> go_string" where
  "quoted s = map (\<lambda>c. if c = CHR ''~'' then CHR 0x22 else c) s"

section \<open>Enough fuel\<close>

lemma skip_ws_le: "length (skip_ws s) \<le> length s"
  by (simp add: skip_ws_def length_dropWhile_le)

lemma expect_less: "expect c s = Some r \<Longrightarrow> length r < length s"
  using skip_ws_le [of s]
  by (cases "skip_ws s") (auto simp: expect_def starts_def Let_def split: if_splits)

lemma starts_tl_less: "starts c (skip_ws s) \<Longrightarrow> length (tl (skip_ws s)) < length s"
  using skip_ws_le [of s] by (cases "skip_ws s") (auto simp: starts_def)

lemma p_str_less: "p_str s = Some (x, r) \<Longrightarrow> length r < length s"
proof (induction s arbitrary: x rule: length_induct)
  case (1 s)
  show ?case
  proof (cases s)
    case (Cons c t)
    have IH: "length r < Suc (length t)" if "p_str (drop n t) = Some (y, r)" for n y
    proof -
      have "length (drop n t) < length s" using Cons by simp
      with 1(1) that have "length r < length (drop n t)" by blast
      then show ?thesis using Cons by simp
    qed
    from 1(2) IH [of 0] show ?thesis
      unfolding Cons by (auto split: if_splits option.splits dest: IH)
  qed (use 1(2) in simp)
qed

lemma p_frac_le: "p_frac s = Some (x, r) \<Longrightarrow> length r \<le> length s"
  using length_dropWhile_le [of is_digit "tl s"]
  by (auto simp: p_frac_def Let_def split: if_splits)

lemma p_exp_le: "p_exp s = Some (x, r) \<Longrightarrow> length r \<le> length s"
  using length_dropWhile_le [of is_digit "tl (tl s)"] length_dropWhile_le [of is_digit "tl s"]
  by (auto simp: p_exp_def Let_def drop_Suc split: if_splits)

lemma p_num_less:
  assumes "p_num s = Some (x, r)"
  shows "length r < length s"
proof -
  define sg where "sg = (if starts CHR ''-'' s then ''-'' else [])"
  define s1 where "s1 = drop (length sg) s"
  define run where "run = takeWhile is_digit s1"
  define ip where "ip = (if starts CHR ''0'' run then ''0'' else run)"
  have "(if ip = [] then None
      else do { (fr, s3) \<leftarrow> p_frac (drop (length ip) s1); (ex, s4) \<leftarrow> p_exp s3;
                Some (sg @ ip @ fr @ ex, s4) }) = Some (x, r)"
    using assms unfolding p_num_def Let_def sg_def s1_def run_def ip_def .
  then obtain fr s3 ex where ip: "ip \<noteq> []" and 1: "p_frac (drop (length ip) s1) = Some (fr, s3)"
    and 2: "p_exp s3 = Some (ex, r)"
    by (auto split: if_splits bind_splits)
  have "s1 \<noteq> []" using ip by (auto simp: ip_def run_def starts_def split: if_splits)
  then have "length (drop (length ip) s1) < length s1" using ip by (cases ip) simp_all
  then show ?thesis using p_frac_le [OF 1] p_exp_le [OF 2] by (simp add: s1_def)
qed

lemma p_value_less:
  "p_value f d s = Some (v, r) \<Longrightarrow> length r < length s"
  "p_members f d s = Some (ms, r) \<Longrightarrow> length r < length s"
  "p_elems f d s = Some (vs, r) \<Longrightarrow> length r < length s"
proof (induction f arbitrary: d s v r ms vs)
  case (Suc f)
  note IH = Suc.IH
  have pre: "length (skip_ws s) - n < length s" if "HasPrefix (skip_ws s) (c # cs)" "0 < n"
    for c cs n and s :: go_string
    using that skip_ws_le [of s] by (cases "skip_ws s") (auto simp: HasPrefix_def)
  {
    case 1
    then show ?case
      using skip_ws_le [of s] pre [of s "CHR ''n''" "''ull''" 4] pre [of s "CHR ''t''" "''rue''" 4]
        pre [of s "CHR ''f''" "''alse''" 5]
      by (auto simp: Let_def split: if_splits option.splits
          dest!: IH(2,3) expect_less p_str_less p_num_less dest: starts_tl_less)
  next
    case 2
    then show ?case
      by (auto split: if_splits option.splits bind_splits dest!: IH(1,2) expect_less p_str_less)
  next
    case 3
    then show ?case
      by (auto split: if_splits option.splits bind_splits dest!: IH(1,3) expect_less)
  }
qed simp_all

lemma p_value_fuel:
  "2 * length s < f \<Longrightarrow> 2 * length s < g \<Longrightarrow> p_value f d s = p_value g d s"
  "2 * length s < f \<Longrightarrow> 2 * length s < g \<Longrightarrow> p_members f d s = p_members g d s"
  "2 * length s + 1 < f \<Longrightarrow> 2 * length s + 1 < g \<Longrightarrow> p_elems f d s = p_elems g d s"
proof (induction f arbitrary: d s g)
  case (Suc f)
  note IH = Suc.IH
  {
    case 1
    then obtain g' where g: "g = Suc g'" by (cases g) auto
    have "p_members f e (tl (skip_ws s)) = p_members g' e (tl (skip_ws s))"
      "p_elems f e (tl (skip_ws s)) = p_elems g' e (tl (skip_ws s))"
      if "starts c (skip_ws s)" for c e
      using starts_tl_less [OF that] 1 g by (auto intro!: IH)
    then show ?case by (auto simp: g Let_def split: option.split)
  next
    case 2
    then obtain g' where g: "g = Suc g'" by (cases g) auto
    have v: "p_value f d t = p_value g' d t" "p_members f d t = p_members g' d t"
      if "length t < length s" for t
      using that 2 g by (auto intro!: IH)
    show ?case
    proof (cases "do { r \<leftarrow> expect (CHR 0x22) s; (k, r1) \<leftarrow> p_str r; expect CHR '':'' r1 }")
      case None
      then show ?thesis by (auto simp: g split: bind_splits)
    next
      case (Some r2)
      then have r2: "length r2 < length s"
        by (auto split: bind_splits dest!: expect_less p_str_less)
      have "p_members f d r4 = p_members g' d r4"
        if "p_value g' d r2 = Some (x, r3)" "expect CHR '','' r3 = Some r4" for x r3 r4
        using p_value_less(1) [OF that(1)] expect_less [OF that(2)] r2 by (intro v(2)) simp
      with Some v(1) [OF r2] show ?thesis
        by (auto simp: g split: bind_splits option.split)
    qed
  next
    case 3
    then obtain g' where g: "g = Suc g'" by (cases g) auto
    have "p_value f d s = p_value g' d s" using 3 g by (auto intro!: IH)
    moreover have "p_elems f d r4 = p_elems g' d r4"
      if "p_value g' d s = Some (x, r3)" "expect CHR '','' r3 = Some r4" for x r3 r4
      using p_value_less(1) [OF that(1)] expect_less [OF that(2)] 3 g by (auto intro!: IH)
    ultimately show ?case
      by (auto simp: g split: bind_splits option.split)
  }
qed simp_all

section \<open>Valid UTF-8\<close>

text \<open>\<open>utf8.ValidString\<close>, and how it behaves on a text with a valid beginning.\<close>

function utf8_ok :: "go_string \<Rightarrow> bool" where
  "utf8_ok [] = True"
| "utf8_ok (c # s) =
     (rune_len (c # s) \<noteq> 0 \<and> utf8_ok (drop (rune_len (c # s) - 1) s))"
  by pat_completeness auto
termination
  by (relation "measure length") (auto simp: less_Suc_eq_le)

lemma is_cont_in_append: "is_cont_in lo hi s i \<Longrightarrow> is_cont_in lo hi (s @ t) i"
  by (simp add: is_cont_in_def nth_append)

lemma is_cont_in_less: "is_cont_in lo hi s i \<Longrightarrow> i < length s"
  by (simp add: is_cont_in_def)

lemma if_le: "(b \<Longrightarrow> (x :: nat) \<le> n) \<Longrightarrow> y \<le> n \<Longrightarrow> (if b then x else y) \<le> n"
  by simp

lemma rune_len_le: "rune_len s \<le> length s"
proof (cases "s = []")
  case False
  then show ?thesis
    unfolding rune_len_def Let_def
    by (intro if_le) (auto simp: Suc_le_eq dest: is_cont_in_less)
qed (simp add: rune_len_def)

lemma rune_len_by_lead:
  assumes "s \<noteq> []" "char_code (hd s) = c"
  shows "c < 128 \<Longrightarrow> rune_len s = 1"
    "194 \<le> c \<Longrightarrow> c \<le> 223 \<Longrightarrow> rune_len s = (if is_cont_in 128 191 s 1 then 2 else 0)"
    "c = 224 \<Longrightarrow> rune_len s = (if is_cont_in 160 191 s 1 \<and> is_cont_in 128 191 s 2 then 3 else 0)"
    "225 \<le> c \<Longrightarrow> c \<le> 236 \<Longrightarrow>
      rune_len s = (if is_cont_in 128 191 s 1 \<and> is_cont_in 128 191 s 2 then 3 else 0)"
    "c = 237 \<Longrightarrow> rune_len s = (if is_cont_in 128 159 s 1 \<and> is_cont_in 128 191 s 2 then 3 else 0)"
    "238 \<le> c \<Longrightarrow> c \<le> 239 \<Longrightarrow>
      rune_len s = (if is_cont_in 128 191 s 1 \<and> is_cont_in 128 191 s 2 then 3 else 0)"
    "c = 240 \<Longrightarrow> rune_len s =
      (if is_cont_in 144 191 s 1 \<and> is_cont_in 128 191 s 2 \<and> is_cont_in 128 191 s 3 then 4 else 0)"
    "241 \<le> c \<Longrightarrow> c \<le> 243 \<Longrightarrow> rune_len s =
      (if is_cont_in 128 191 s 1 \<and> is_cont_in 128 191 s 2 \<and> is_cont_in 128 191 s 3 then 4 else 0)"
    "c = 244 \<Longrightarrow> rune_len s =
      (if is_cont_in 128 143 s 1 \<and> is_cont_in 128 191 s 2 \<and> is_cont_in 128 191 s 3 then 4 else 0)"
    "128 \<le> c \<Longrightarrow> c < 194 \<Longrightarrow> rune_len s = 0" "244 < c \<Longrightarrow> rune_len s = 0"
  unfolding rune_len_def Let_def assms(2)
  using assms(1) by simp_all

lemma rune_len_append:
  assumes "rune_len s \<noteq> 0"
  shows "rune_len (s @ t) = rune_len s"
proof -
  define c where "c = char_code (hd s)"
  have s: "s \<noteq> []" "s @ t \<noteq> []" "char_code (hd s) = c" "char_code (hd (s @ t)) = c"
    using assms by (auto simp: rune_len_def c_def split: if_splits)
  consider "c < 128" | "194 \<le> c" "c \<le> 223" | "c = 224" | "225 \<le> c" "c \<le> 236" | "c = 237"
    | "238 \<le> c" "c \<le> 239" | "c = 240" | "241 \<le> c" "c \<le> 243" | "c = 244"
    | "128 \<le> c" "c < 194" | "244 < c" by linarith
  then show ?thesis
    using assms
    by cases (simp_all add: rune_len_by_lead [OF s(1,3)] rune_len_by_lead [OF s(2,4)]
        is_cont_in_append split: if_splits)
qed

lemma utf8_ok_append: "utf8_ok s \<Longrightarrow> utf8_ok (s @ t) = utf8_ok t"
proof (induction s rule: utf8_ok.induct)
  case (2 c s)
  from 2(2) have n: "rune_len (c # s) \<noteq> 0" by simp
  have "rune_len (c # s) - 1 \<le> length s" using rune_len_le [of "c # s"] by simp
  with 2 n rune_len_append [OF n, of t] show ?case by simp
qed simp

lemma utf8_ok_ascii: "list_all (\<lambda>c. char_code c < 128) s \<Longrightarrow> utf8_ok s"
  by (induction s) (simp_all add: rune_len_def Let_def)

end
