(* ===== verification/Webhook_Parser.thy ===== *)
theory Webhook_Parser
  imports Domain Go_Json
begin

text \<open>
  \<open>internal/gitlab/types.go\<close>, \<open>parser.go\<close> and \<open>signature.go\<close>: the webhook payload
  structs with the decoding their JSON tags give them, the normalisation of push, merge
  request and emoji payloads into one event type, and the check of the webhook token.

  Each function that reads the clock takes the instant it reads as its last argument. The
  text of a JSON error is only logged and is not modelled (\<open>json_error\<close>).
\<close>

section \<open>Payload structs\<close>

record Commit =
  cm_ID :: go_string
  cm_Message :: go_string
  cm_AuthorEmail :: go_string

record PushEvent =
  pe_ObjectKind :: go_string
  pe_Ref :: go_string
  pe_Before :: go_string
  pe_After :: go_string
  pe_ProjectID :: int
  pe_UserEmail :: go_string
  pe_UserName :: go_string
  pe_Commits :: "Commit list"

record User =
  us_Email :: go_string
  us_Name :: go_string

record Project =
  pr_ID :: int

record MRObjectAttributes =
  oa_IID :: int
  oa_Title :: go_string
  oa_SourceBranch :: go_string
  oa_TargetBranch :: go_string
  oa_State :: go_string
  oa_Action :: go_string
  oa_Draft :: bool
  oa_WorkInProgress :: bool
  oa_AuthorID :: int

record MergeRequestEvent =
  me_ObjectKind :: go_string
  me_User :: User
  me_Project :: Project
  me_ObjectAttributes :: MRObjectAttributes

record EmojiAttributes =
  ea_ID :: int
  ea_Name :: go_string
  ea_AwardableType :: go_string
  ea_AwardableID :: int

record MRFromEmoji =
  mf_IID :: int
  mf_Title :: go_string
  mf_TargetBranch :: go_string
  mf_State :: go_string
  mf_SourceBranch :: go_string

record EmojiEvent =
  ee_ObjectKind :: go_string
  ee_EventType :: go_string
  ee_User :: User
  ee_Project :: Project
  ee_ObjectAttributes :: EmojiAttributes
  ee_MergeRequest :: "MRFromEmoji option"

definition zero_commit :: Commit where
  "zero_commit = \<lparr>cm_ID = '''', cm_Message = '''', cm_AuthorEmail = ''''\<rparr>"
definition zero_push :: PushEvent where
  "zero_push = \<lparr>pe_ObjectKind = '''', pe_Ref = '''', pe_Before = '''', pe_After = '''',
     pe_ProjectID = 0, pe_UserEmail = '''', pe_UserName = '''', pe_Commits = []\<rparr>"
definition zero_user :: User where "zero_user = \<lparr>us_Email = '''', us_Name = ''''\<rparr>"
definition zero_project :: Project where "zero_project = \<lparr>pr_ID = 0\<rparr>"
definition zero_attributes :: MRObjectAttributes where
  "zero_attributes = \<lparr>oa_IID = 0, oa_Title = '''', oa_SourceBranch = '''', oa_TargetBranch = '''',
     oa_State = '''', oa_Action = '''', oa_Draft = False, oa_WorkInProgress = False,
     oa_AuthorID = 0\<rparr>"
definition zero_merge_request :: MergeRequestEvent where
  "zero_merge_request = \<lparr>me_ObjectKind = '''', me_User = zero_user, me_Project = zero_project,
     me_ObjectAttributes = zero_attributes\<rparr>"
definition zero_emoji_attributes :: EmojiAttributes where
  "zero_emoji_attributes = \<lparr>ea_ID = 0, ea_Name = '''', ea_AwardableType = '''', ea_AwardableID = 0\<rparr>"
definition zero_mr_from_emoji :: MRFromEmoji where
  "zero_mr_from_emoji = \<lparr>mf_IID = 0, mf_Title = '''', mf_TargetBranch = '''', mf_State = '''',
     mf_SourceBranch = ''''\<rparr>"
definition zero_emoji :: EmojiEvent where
  "zero_emoji = \<lparr>ee_ObjectKind = '''', ee_EventType = '''', ee_User = zero_user,
     ee_Project = zero_project, ee_ObjectAttributes = zero_emoji_attributes,
     ee_MergeRequest = None\<rparr>"

section \<open>Decoding by JSON tags\<close>

definition probe_field :: "go_string \<Rightarrow> go_string \<Rightarrow> go_string \<Rightarrow> json \<Rightarrow> go_string option" where
  "probe_field field cur k v = (if name_matches field k then dec_string v cur else Some cur)"

definition author_field :: "Commit \<Rightarrow> go_string \<Rightarrow> json \<Rightarrow> Commit option" where
  "author_field c k v =
     (if name_matches ''email'' k
      then set_field (\<lambda>x. c\<lparr>cm_AuthorEmail := x\<rparr>) (dec_string v (cm_AuthorEmail c))
      else Some c)"

definition commit_field :: "Commit \<Rightarrow> go_string \<Rightarrow> json \<Rightarrow> Commit option" where
  "commit_field c k v =
     (if name_matches ''id'' k then set_field (\<lambda>x. c\<lparr>cm_ID := x\<rparr>) (dec_string v (cm_ID c))
      else if name_matches ''message'' k
      then set_field (\<lambda>x. c\<lparr>cm_Message := x\<rparr>) (dec_string v (cm_Message c))
      else if name_matches ''author'' k then dec_struct author_field v c
      else Some c)"

definition push_field :: "PushEvent \<Rightarrow> go_string \<Rightarrow> json \<Rightarrow> PushEvent option" where
  "push_field p k v =
     (if name_matches ''object_kind'' k
      then set_field (\<lambda>x. p\<lparr>pe_ObjectKind := x\<rparr>) (dec_string v (pe_ObjectKind p))
      else if name_matches ''ref'' k
      then set_field (\<lambda>x. p\<lparr>pe_Ref := x\<rparr>) (dec_string v (pe_Ref p))
      else if name_matches ''before'' k
      then set_field (\<lambda>x. p\<lparr>pe_Before := x\<rparr>) (dec_string v (pe_Before p))
      else if name_matches ''after'' k
      then set_field (\<lambda>x. p\<lparr>pe_After := x\<rparr>) (dec_string v (pe_After p))
      else if name_matches ''project_id'' k
      then set_field (\<lambda>x. p\<lparr>pe_ProjectID := x\<rparr>) (dec_int v (pe_ProjectID p))
      else if name_matches ''user_email'' k
      then set_field (\<lambda>x. p\<lparr>pe_UserEmail := x\<rparr>) (dec_string v (pe_UserEmail p))
      else if name_matches ''user_name'' k
      then set_field (\<lambda>x. p\<lparr>pe_UserName := x\<rparr>) (dec_string v (pe_UserName p))
      else if name_matches ''commits'' k
      then set_field (\<lambda>x. p\<lparr>pe_Commits := x\<rparr>)
             (dec_slice (dec_struct commit_field) zero_commit v (pe_Commits p))
      else Some p)"

definition user_field :: "User \<Rightarrow> go_string \<Rightarrow> json \<Rightarrow> User option" where
  "user_field u k v =
     (if name_matches ''email'' k then set_field (\<lambda>x. u\<lparr>us_Email := x\<rparr>) (dec_string v (us_Email u))
      else if name_matches ''name'' k
      then set_field (\<lambda>x. u\<lparr>us_Name := x\<rparr>) (dec_string v (us_Name u))
      else Some u)"

definition project_field :: "Project \<Rightarrow> go_string \<Rightarrow> json \<Rightarrow> Project option" where
  "project_field p k v =
     (if name_matches ''id'' k then set_field (\<lambda>x. p\<lparr>pr_ID := x\<rparr>) (dec_int v (pr_ID p)) else Some p)"

definition attributes_field :: "MRObjectAttributes \<Rightarrow> go_string \<Rightarrow> json \<Rightarrow> MRObjectAttributes option" where
  "attributes_field a k v =
     (if name_matches ''iid'' k then set_field (\<lambda>x. a\<lparr>oa_IID := x\<rparr>) (dec_int v (oa_IID a))
      else if name_matches ''title'' k
      then set_field (\<lambda>x. a\<lparr>oa_Title := x\<rparr>) (dec_string v (oa_Title a))
      else if name_matches ''source_branch'' k
      then set_field (\<lambda>x. a\<lparr>oa_SourceBranch := x\<rparr>) (dec_string v (oa_SourceBranch a))
      else if name_matches ''target_branch'' k
      then set_field (\<lambda>x. a\<lparr>oa_TargetBranch := x\<rparr>) (dec_string v (oa_TargetBranch a))
      else if name_matches ''state'' k
      then set_field (\<lambda>x. a\<lparr>oa_State := x\<rparr>) (dec_string v (oa_State a))
      else if name_matches ''action'' k
      then set_field (\<lambda>x. a\<lparr>oa_Action := x\<rparr>) (dec_string v (oa_Action a))
      else if name_matches ''draft'' k
      then set_field (\<lambda>x. a\<lparr>oa_Draft := x\<rparr>) (dec_bool v (oa_Draft a))
      else if name_matches ''work_in_progress'' k
      then set_field (\<lambda>x. a\<lparr>oa_WorkInProgress := x\<rparr>) (dec_bool v (oa_WorkInProgress a))
      else if name_matches ''author_id'' k
      then set_field (\<lambda>x. a\<lparr>oa_AuthorID := x\<rparr>) (dec_int v (oa_AuthorID a))
      else Some a)"

definition merge_request_field :: "MergeRequestEvent \<Rightarrow> go_string \<Rightarrow> json \<Rightarrow> MergeRequestEvent option" where
  "merge_request_field m k v =
     (if name_matches ''object_kind'' k
      then set_field (\<lambda>x. m\<lparr>me_ObjectKind := x\<rparr>) (dec_string v (me_ObjectKind m))
      else if name_matches ''user'' k
      then set_field (\<lambda>x. m\<lparr>me_User := x\<rparr>) (dec_struct user_field v (me_User m))
      else if name_matches ''project'' k
      then set_field (\<lambda>x. m\<lparr>me_Project := x\<rparr>) (dec_struct project_field v (me_Project m))
      else if name_matches ''object_attributes'' k
      then set_field (\<lambda>x. m\<lparr>me_ObjectAttributes := x\<rparr>)
             (dec_struct attributes_field v (me_ObjectAttributes m))
      else Some m)"

definition emoji_attributes_field :: "EmojiAttributes \<Rightarrow> go_string \<Rightarrow> json \<Rightarrow> EmojiAttributes option" where
  "emoji_attributes_field a k v =
     (if name_matches ''id'' k then set_field (\<lambda>x. a\<lparr>ea_ID := x\<rparr>) (dec_int v (ea_ID a))
      else if name_matches ''name'' k
      then set_field (\<lambda>x. a\<lparr>ea_Name := x\<rparr>) (dec_string v (ea_Name a))
      else if name_matches ''awardable_type'' k
      then set_field (\<lambda>x. a\<lparr>ea_AwardableType := x\<rparr>) (dec_string v (ea_AwardableType a))
      else if name_matches ''awardable_id'' k
      then set_field (\<lambda>x. a\<lparr>ea_AwardableID := x\<rparr>) (dec_int v (ea_AwardableID a))
      else Some a)"

definition mr_from_emoji_field :: "MRFromEmoji \<Rightarrow> go_string \<Rightarrow> json \<Rightarrow> MRFromEmoji option" where
  "mr_from_emoji_field m k v =
     (if name_matches ''iid'' k then set_field (\<lambda>x. m\<lparr>mf_IID := x\<rparr>) (dec_int v (mf_IID m))
      else if name_matches ''title'' k
      then set_field (\<lambda>x. m\<lparr>mf_Title := x\<rparr>) (dec_string v (mf_Title m))
      else if name_matches ''target_branch'' k
      then set_field (\<lambda>x. m\<lparr>mf_TargetBranch := x\<rparr>) (dec_string v (mf_TargetBranch m))
      else if name_matches ''state'' k
      then set_field (\<lambda>x. m\<lparr>mf_State := x\<rparr>) (dec_string v (mf_State m))
      else if name_matches ''source_branch'' k
      then set_field (\<lambda>x. m\<lparr>mf_SourceBranch := x\<rparr>) (dec_string v (mf_SourceBranch m))
      else Some m)"

definition emoji_field :: "EmojiEvent \<Rightarrow> go_string \<Rightarrow> json \<Rightarrow> EmojiEvent option" where
  "emoji_field e k v =
     (if name_matches ''object_kind'' k
      then set_field (\<lambda>x. e\<lparr>ee_ObjectKind := x\<rparr>) (dec_string v (ee_ObjectKind e))
      else if name_matches ''event_type'' k
      then set_field (\<lambda>x. e\<lparr>ee_EventType := x\<rparr>) (dec_string v (ee_EventType e))
      else if name_matches ''user'' k
      then set_field (\<lambda>x. e\<lparr>ee_User := x\<rparr>) (dec_struct user_field v (ee_User e))
      else if name_matches ''project'' k
      then set_field (\<lambda>x. e\<lparr>ee_Project := x\<rparr>) (dec_struct project_field v (ee_Project e))
      else if name_matches ''object_attributes'' k
      then set_field (\<lambda>x. e\<lparr>ee_ObjectAttributes := x\<rparr>)
             (dec_struct emoji_attributes_field v (ee_ObjectAttributes e))
      else if name_matches ''merge_request'' k
      then set_field (\<lambda>x. e\<lparr>ee_MergeRequest := x\<rparr>)
             (dec_pointer (dec_struct mr_from_emoji_field) zero_mr_from_emoji v (ee_MergeRequest e))
      else Some e)"

definition json_error :: go_error where "json_error = Errorf ''json''"

text \<open>\<open>json.Unmarshal\<close> of the raw payload into a struct that starts at its zero value.\<close>

definition unmarshal ::
    "('r \<Rightarrow> go_string \<Rightarrow> json \<Rightarrow> 'r option) \<Rightarrow> 'r \<Rightarrow> go_string \<Rightarrow> 'r result" where
  "unmarshal field zero raw =
     (case json_parse raw of
        None \<Rightarrow> Inl json_error
      | Some v \<Rightarrow> (case dec_struct field v zero of None \<Rightarrow> Inl json_error | Some r \<Rightarrow> Inr r))"

section \<open>Normalisation\<close>

definition zeroSHA :: go_string where
  "zeroSHA = ''0000000000000000000000000000000000000000''"

definition commitMessages :: "Commit list \<Rightarrow> go_string list" where
  "commitMessages commits = map cm_Message commits"

definition IsNewBranch :: "go_string \<Rightarrow> bool" where
  "IsNewBranch before = (before = zeroSHA \<or> before = '''')"

definition push_key :: "int \<Rightarrow> go_string \<Rightarrow> go_string \<Rightarrow> go_string" where
  "push_key project branch before =
     ''push:'' @ show_int project @ '':'' @ branch @ '':'' @ before"

definition mr_key :: "int \<Rightarrow> int \<Rightarrow> go_string \<Rightarrow> go_string" where
  "mr_key project iid action = ''mr:'' @ show_int project @ '':'' @ show_int iid @ '':'' @ action"

definition emoji_key :: "int \<Rightarrow> go_string \<Rightarrow> int \<Rightarrow> go_string" where
  "emoji_key project name i = ''emoji:'' @ show_int project @ '':'' @ name @ '':'' @ show_int i"

definition parsePush :: "go_string \<Rightarrow> instant \<Rightarrow> NormalizedEvent result" where
  "parsePush raw now =
     (case unmarshal push_field zero_push raw of
        Inl e \<Rightarrow> Inl (Wrap ''parse push event'' e)
      | Inr ev \<Rightarrow>
          let branch = TrimPrefix (pe_Ref ev) ''refs/heads/'';
              idempKey = push_key (pe_ProjectID ev) branch (pe_Before ev)
          in Inr (zero_event
               \<lparr>IdempotencyKey := idempKey,
                ev_Type := EventPush,
                SourceBranch := branch,
                ProjectID := pe_ProjectID ev,
                AuthorEmail := pe_UserEmail ev,
                CommitMessages := commitMessages (pe_Commits ev),
                RawPayload := raw,
                ReceivedAt := now\<rparr>))"

definition classifyMR :: "go_string \<Rightarrow> bool \<Rightarrow> EventType" where
  "classifyMR action isDraft =
     (if action = ''open'' \<or> action = ''reopen'' then
        (if isDraft then EventMRDraft else EventMROpened)
      else if action = ''merge'' then EventMRMerged
      else if action = ''update'' then
        (if \<not> isDraft then EventMROpened else EventMRDraft)
      else EventUnrecognized)"

definition parseMR :: "go_string \<Rightarrow> instant \<Rightarrow> NormalizedEvent result" where
  "parseMR raw now =
     (case unmarshal merge_request_field zero_merge_request raw of
        Inl e \<Rightarrow> Inl (Wrap ''parse merge_request event'' e)
      | Inr ev \<Rightarrow>
          let oa = me_ObjectAttributes ev;
              isDraft = (oa_Draft oa \<or> oa_WorkInProgress oa);
              eventType = classifyMR (oa_Action oa) isDraft;
              idempKey = mr_key (pr_ID (me_Project ev)) (oa_IID oa) (oa_Action oa)
          in Inr (zero_event
               \<lparr>IdempotencyKey := idempKey,
                ev_Type := eventType,
                SourceBranch := oa_SourceBranch oa,
                TargetBranch := oa_TargetBranch oa,
                MRTitle := oa_Title oa,
                MRIID := oa_IID oa,
                ProjectID := pr_ID (me_Project ev),
                AuthorEmail := us_Email (me_User ev),
                RawPayload := raw,
                ReceivedAt := now\<rparr>))"

definition unrecognized_event :: "go_string \<Rightarrow> instant \<Rightarrow> NormalizedEvent" where
  "unrecognized_event raw now =
     zero_event\<lparr>ev_Type := EventUnrecognized, RawPayload := raw, ReceivedAt := now\<rparr>"

definition parseEmoji :: "go_string \<Rightarrow> instant \<Rightarrow> NormalizedEvent result" where
  "parseEmoji raw now =
     (case unmarshal emoji_field zero_emoji raw of
        Inl e \<Rightarrow> Inl (Wrap ''parse emoji event'' e)
      | Inr ev \<Rightarrow>
          let oa = ee_ObjectAttributes ev in
          if ee_EventType ev \<noteq> ''award'' \<or> ea_AwardableType oa \<noteq> ''MergeRequest''
          then Inr (unrecognized_event raw now)
          else
            let mr = (case ee_MergeRequest ev of None \<Rightarrow> zero_mr_from_emoji | Some m \<Rightarrow> m);
                idempKey = emoji_key (pr_ID (ee_Project ev)) (ea_Name oa) (ea_ID oa)
            in Inr (zero_event
                 \<lparr>IdempotencyKey := idempKey,
                  ev_Type := EventEmojiAward,
                  SourceBranch := mf_SourceBranch mr,
                  TargetBranch := mf_TargetBranch mr,
                  MRTitle := mf_Title mr,
                  MRIID := mf_IID mr,
                  ProjectID := pr_ID (ee_Project ev),
                  AuthorEmail := us_Email (ee_User ev),
                  RawPayload := raw,
                  ReceivedAt := now,
                  EmojiName := ea_Name oa,
                  MRState := mf_State mr\<rparr>))"

definition Parse :: "go_string \<Rightarrow> instant \<Rightarrow> NormalizedEvent result" where
  "Parse raw now =
     (case unmarshal (probe_field ''object_kind'') '''' raw of
        Inl e \<Rightarrow> Inl (Wrap ''read object_kind'' e)
      | Inr kind \<Rightarrow>
          if kind = ''push'' then parsePush raw now
          else if kind = ''merge_request'' then parseMR raw now
          else if kind = ''emoji'' then parseEmoji raw now
          else Inr (unrecognized_event raw now))"

section \<open>Webhook token\<close>

text \<open>
  \<open>subtle.ConstantTimeCompare\<close>: 0 for different lengths, otherwise the exclusive or of
  all byte pairs is collected and compared with 0 at the end.
\<close>

fun xor_fold :: "nat \<Rightarrow> go_string \<Rightarrow> go_string \<Rightarrow> nat" where
  "xor_fold v (x # xs) (y # ys) = xor_fold (or v (xor (char_code x) (char_code y))) xs ys"
| "xor_fold v _ _ = v"

definition ConstantTimeCompare :: "go_string \<Rightarrow> go_string \<Rightarrow> int" where
  "ConstantTimeCompare x y =
     (if length x \<noteq> length y then 0 else if xor_fold 0 x y = 0 then 1 else 0)"

definition ErrInvalidSignature :: go_error where
  "ErrInvalidSignature = Errorf ''invalid gitlab webhook token''"

text \<open>The argument is the value of the \<open>X-Gitlab-Token\<close> header, empty when there is none.\<close>

definition ValidateToken :: "go_string \<Rightarrow> go_string \<Rightarrow> go_error option" where
  "ValidateToken token secret =
     (if ConstantTimeCompare token secret \<noteq> 1 then Some ErrInvalidSignature else None)"

lemma xor_nat_eq_0 [simp]: "xor m n = (0 :: nat) \<longleftrightarrow> m = n"
proof
  assume "xor m n = 0"
  then have "xor (xor m n) n = n" by simp
  then show "m = n" by (simp add: xor.assoc)
qed simp

lemma xor_fold_eq_0:
  "length x = length y \<Longrightarrow> xor_fold v x y = 0 \<longleftrightarrow> v = 0 \<and> x = y"
  by (induction v x y rule: xor_fold.induct) (auto simp: or_eq_0_iff)

lemma ConstantTimeCompare_iff: "ConstantTimeCompare x y = 1 \<longleftrightarrow> x = y"
  by (auto simp: ConstantTimeCompare_def xor_fold_eq_0)

lemma ValidateToken_iff: "ValidateToken token secret = None \<longleftrightarrow> token = secret"
  by (simp add: ValidateToken_def ConstantTimeCompare_iff)

section \<open>Idempotency keys\<close>

text \<open>What an event is identified by, and the key the parser gives it.\<close>

datatype event_identity =
    PushIdentity int go_string go_string
  | MRIdentity int int go_string
  | EmojiIdentity int go_string int

primrec identity_key :: "event_identity \<Rightarrow> go_string" where
  "identity_key (PushIdentity p b s) = push_key p b s"
| "identity_key (MRIdentity p i a) = mr_key p i a"
| "identity_key (EmojiIdentity p n i) = emoji_key p n i"

text \<open>The commit id of a push holds no colon: it is a hexadecimal hash or empty.\<close>

primrec identity_ok :: "event_identity \<Rightarrow> bool" where
  "identity_ok (PushIdentity p b s) = (CHR '':'' \<notin> set s)"
| "identity_ok (MRIdentity p i a) = True"
| "identity_ok (EmojiIdentity p n i) = True"

lemma push_key_inj:
  assumes "push_key p b s = push_key p' b' s'" "CHR '':'' \<notin> set s" "CHR '':'' \<notin> set s'"
  shows "p = p' \<and> b = b' \<and> s = s'"
proof -
  have "show_int p = show_int p' \<and> b @ '':'' @ s = b' @ '':'' @ s'"
    using assms(1) append_colon_split [of "show_int p" _ "show_int p'"]
    by (auto simp: push_key_def show_int_no_colon)
  then show ?thesis
    using append_colon_split_last [of b s b' s'] assms(2,3) show_int_inj by simp
qed

lemma mr_key_inj:
  assumes "mr_key p i a = mr_key p' i' a'"
  shows "p = p' \<and> i = i' \<and> a = a'"
proof -
  have "show_int p = show_int p' \<and> show_int i @ '':'' @ a = show_int i' @ '':'' @ a'"
    using assms append_colon_split [of "show_int p" _ "show_int p'"]
    by (auto simp: mr_key_def show_int_no_colon)
  then show ?thesis
    using append_colon_split [of "show_int i" a "show_int i'" a'] show_int_inj
    by (simp add: show_int_no_colon)
qed

lemma emoji_key_inj:
  assumes "emoji_key p n i = emoji_key p' n' i'"
  shows "p = p' \<and> n = n' \<and> i = i'"
proof -
  have "show_int p = show_int p' \<and> n @ '':'' @ show_int i = n' @ '':'' @ show_int i'"
    using assms append_colon_split [of "show_int p" _ "show_int p'"]
    by (auto simp: emoji_key_def show_int_no_colon)
  then show ?thesis
    using append_colon_split_last [of n "show_int i" n' "show_int i'"] show_int_inj
    by (simp add: show_int_no_colon)
qed

lemma key_kinds [simp]:
  "push_key p b s \<noteq> mr_key p' i a" "mr_key p' i a \<noteq> push_key p b s"
  "push_key p b s \<noteq> emoji_key q n j" "emoji_key q n j \<noteq> push_key p b s"
  "mr_key p' i a \<noteq> emoji_key q n j" "emoji_key q n j \<noteq> mr_key p' i a"
  by (simp_all add: push_key_def mr_key_def emoji_key_def)

lemma identity_key_injective:
  assumes "identity_key x = identity_key y" "identity_ok x" "identity_ok y"
  shows "x = y"
  using assms by (cases x; cases y) (auto dest: push_key_inj mr_key_inj emoji_key_inj)

section \<open>What Parse returns\<close>

lemma classifyMR_type:
  "classifyMR a d \<in> {EventMROpened, EventMRMerged, EventMRDraft, EventUnrecognized}"
  by (simp add: classifyMR_def)

text \<open>The identity of the payload, read from the payload itself.\<close>

definition payload_identity :: "go_string \<Rightarrow> event_identity option" where
  "payload_identity raw =
     (case unmarshal (probe_field ''object_kind'') '''' raw of
        Inl e \<Rightarrow> None
      | Inr kind \<Rightarrow>
          if kind = ''push'' then
            (case unmarshal push_field zero_push raw of
               Inl e \<Rightarrow> None
             | Inr p \<Rightarrow> Some (PushIdentity (pe_ProjectID p)
                           (TrimPrefix (pe_Ref p) ''refs/heads/'') (pe_Before p)))
          else if kind = ''merge_request'' then
            (case unmarshal merge_request_field zero_merge_request raw of
               Inl e \<Rightarrow> None
             | Inr m \<Rightarrow> Some (MRIdentity (pr_ID (me_Project m))
                           (oa_IID (me_ObjectAttributes m)) (oa_Action (me_ObjectAttributes m))))
          else if kind = ''emoji'' then
            (case unmarshal emoji_field zero_emoji raw of
               Inl e \<Rightarrow> None
             | Inr m \<Rightarrow> Some (EmojiIdentity (pr_ID (ee_Project m))
                           (ea_Name (ee_ObjectAttributes m)) (ea_ID (ee_ObjectAttributes m))))
          else None)"

lemma Parse_identity:
  assumes "Parse raw now = Inr ev" "ev_Type ev \<noteq> EventUnrecognized"
  shows "\<exists>i. payload_identity raw = Some i \<and> IdempotencyKey ev = identity_key i"
proof -
  obtain kind where k: "unmarshal (probe_field ''object_kind'') '''' raw = Inr kind"
    using assms(1) by (auto simp: Parse_def split: sum.splits)
  consider "kind = ''push''" | "kind = ''merge_request''" | "kind = ''emoji''"
    using assms k by (auto simp: Parse_def unrecognized_event_def split: if_splits)
  then show ?thesis
  proof cases
    case 1
    then show ?thesis using assms k
      by (auto simp: Parse_def parsePush_def payload_identity_def Let_def split: sum.splits)
  next
    case 2
    then show ?thesis using assms k
      by (auto simp: Parse_def parseMR_def payload_identity_def Let_def split: sum.splits)
  next
    case 3
    then show ?thesis using assms k
      by (auto simp: Parse_def parseEmoji_def payload_identity_def Let_def unrecognized_event_def
          split: sum.splits if_splits)
  qed
qed

lemma Parse_type:
  assumes "Parse raw now = Inr ev"
  shows "ev_Type ev \<in> {EventPush, EventMROpened, EventMRMerged, EventMRDraft, EventEmojiAward,
    EventUnrecognized}" "ev_ID ev = ''''" "IssueKeys_of ev = []" "RawPayload ev = raw"
    "ReceivedAt ev = now"
  using assms
  by (auto simp: Parse_def parsePush_def parseMR_def parseEmoji_def unrecognized_event_def
      classifyMR_def zero_event_def Let_def split: sum.splits if_splits)

section \<open>Sample payloads\<close>

definition sample_push :: go_string where
  "sample_push =
     quoted ''{~object_kind~:~push~,~ref~:~refs/heads/RIS-3-ris-3~,~before~:~~,~project_id~:4}''"

definition sample_push_event :: "instant \<Rightarrow> NormalizedEvent" where
  "sample_push_event now = zero_event
     \<lparr>IdempotencyKey := ''push:4:RIS-3-ris-3:'', ev_Type := EventPush,
      SourceBranch := ''RIS-3-ris-3'', ProjectID := 4, RawPayload := sample_push,
      ReceivedAt := now\<rparr>"

lemma parse_sample_push:
  "json_parse sample_push = Some (JObj [(''object_kind'', JStr ''push''),
     (''ref'', JStr ''refs/heads/RIS-3-ris-3''), (''before'', JStr ''''), (''project_id'', JNum ''4'')])"
  by code_simp

lemma unmarshal_sample_push:
  "unmarshal (probe_field ''object_kind'') '''' sample_push = Inr ''push''"
  "unmarshal (probe_field ''before'') '''' sample_push = Inr ''''"
  "unmarshal push_field zero_push sample_push =
     Inr (zero_push\<lparr>pe_ObjectKind := ''push'', pe_Ref := ''refs/heads/RIS-3-ris-3'', pe_ProjectID := 4\<rparr>)"
  unfolding unmarshal_def parse_sample_push option.case by code_simp+

lemma sample_push_key: "push_key 4 ''RIS-3-ris-3'' '''' = ''push:4:RIS-3-ris-3:''"
  by code_simp

lemma Parse_sample_push: "Parse sample_push now = Inr (sample_push_event now)"
proof -
  have "TrimPrefix ''refs/heads/RIS-3-ris-3'' ''refs/heads/'' = ''RIS-3-ris-3''" by code_simp
  moreover have "pe_ProjectID zero_push = 0" "pe_Before zero_push = ''''" "pe_UserEmail zero_push = ''''"
    "pe_Commits zero_push = []"
    by (simp_all add: zero_push_def)
  ultimately show ?thesis
    by (simp add: Parse_def parsePush_def unmarshal_sample_push sample_push_event_def Let_def
        sample_push_key commitMessages_def) (simp add: zero_event_def)
qed

section \<open>Properties\<close>

text \<open>
  C17. The idempotency key tells deliveries apart exactly by what they are about: two parsed
  payloads get the same key if and only if they have the same identity (project, branch and
  previous commit of a push; project, number and action of a merge request; project, name
  and id of an award), provided the previous commit of a push holds no colon.
\<close>

theorem idempotency_key_identity:
  assumes "Parse raw now = Inr ev" "Parse raw' now' = Inr ev'"
    and "ev_Type ev \<noteq> EventUnrecognized" "ev_Type ev' \<noteq> EventUnrecognized"
    and "pred_option identity_ok (payload_identity raw)" "pred_option identity_ok (payload_identity raw')"
  shows "IdempotencyKey ev = IdempotencyKey ev' \<longleftrightarrow> payload_identity raw = payload_identity raw'"
  using Parse_identity [OF assms(1,3)] Parse_identity [OF assms(2,4)] assms(5,6)
  by (auto dest: identity_key_injective)

lemma sample_push_identity: "payload_identity sample_push = Some (PushIdentity 4 ''RIS-3-ris-3'' '''')"
proof -
  have "TrimPrefix ''refs/heads/RIS-3-ris-3'' ''refs/heads/'' = ''RIS-3-ris-3''" by code_simp
  moreover have "pe_Before zero_push = ''''" by (simp add: zero_push_def)
  ultimately show ?thesis by (simp add: payload_identity_def unmarshal_sample_push)
qed

lemma sample_push_event_type [simp]: "ev_Type (sample_push_event now) = EventPush"
  by (simp add: sample_push_event_def)

theorem idempotency_key_identity_witness:
  "Parse sample_push 0 = Inr (sample_push_event 0) \<and>
   IdempotencyKey (sample_push_event 0) = IdempotencyKey (sample_push_event 5)"
proof -
  have "pred_option identity_ok (payload_identity sample_push)"
    by (simp add: sample_push_identity)
  then show ?thesis
    using idempotency_key_identity [OF Parse_sample_push [of 0] Parse_sample_push [of 5]]
      Parse_sample_push [of 0] by simp
qed

text \<open>
  What is parsed keeps the raw payload and the time it was read at, has no identifier and
  no issue keys yet, and has one of the six event types; a payload of another kind than push,
  merge request and emoji is unrecognized and not an error.
\<close>

lemma parsed_event_shape:
  assumes "Parse raw now = Inr ev"
  shows "RawPayload ev = raw \<and> ReceivedAt ev = now \<and> ev_ID ev = '''' \<and> IssueKeys_of ev = [] \<and>
    EventType_str (ev_Type ev) \<in>
      {''push'', ''mr_opened'', ''mr_merged'', ''mr_draft'', ''emoji_award'', ''unrecognized''} \<and>
    (\<forall>kind. unmarshal (probe_field ''object_kind'') '''' raw = Inr kind \<longrightarrow>
       kind \<notin> {''push'', ''merge_request'', ''emoji''} \<longrightarrow> ev = unrecognized_event raw now)"
proof -
  have "ev = unrecognized_event raw now"
    if "unmarshal (probe_field ''object_kind'') '''' raw = Inr kind"
      "kind \<notin> {''push'', ''merge_request'', ''emoji''}" for kind
    using assms that by (auto simp: Parse_def)
  then show ?thesis using Parse_type [OF assms] by auto
qed

text \<open>
  A merge request action is ready for review exactly when it opens, reopens or updates a
  request that is no draft, a draft exactly when it does so to a draft, merged exactly on
  merge whether or not it is a draft, and unrecognized for every other action.
\<close>

lemma merge_request_actions:
  "(classifyMR a draft = EventMROpened \<longleftrightarrow> a \<in> {''open'', ''reopen'', ''update''} \<and> \<not> draft) \<and>
   (classifyMR a draft = EventMRDraft \<longleftrightarrow> a \<in> {''open'', ''reopen'', ''update''} \<and> draft) \<and>
   (classifyMR a draft = EventMRMerged \<longleftrightarrow> a = ''merge'') \<and>
   (classifyMR a draft = EventUnrecognized \<longleftrightarrow> a \<notin> {''open'', ''reopen'', ''update'', ''merge''})"
  by (auto simp: classifyMR_def)

text \<open>
  The token check accepts exactly the configured secret: the byte-wise comparison without
  early exit decides equality of the two strings.
\<close>

lemma token_check_is_equality:
  "ValidateToken token secret = None \<longleftrightarrow> token = secret"
  by (rule ValidateToken_iff)

end
