(* ===== verification/Issue_Key.thy ===== *)
theory Issue_Key
  imports Go_Regexp
begin

text \<open>
  \<open>internal/gitlab/issuekey.go\<close>: extraction of Jira issue keys from text, with the
  process-wide cache of compiled patterns as explicit state. The project key is taken to
  be ASCII, as Jira project keys are.
\<close>

section \<open>Pattern cache\<close>

type_synonym pattern_cache = "go_string \<rightharpoonup> pattern"

text \<open>
  \<^verbatim>\<open>(?i)\b\<close>, the quoted project key, then \<^verbatim>\<open>-(\d+)\b\<close>. The
  group only captures and does not change what is matched.
\<close>

definition issue_pattern :: "go_string \<Rightarrow> pattern" where
  "issue_pattern projectKey =
     [WordBoundary] @ map FoldLit projectKey @ [FoldLit CHR ''-'', Digits, WordBoundary]"

definition compiledIssueKeyPattern :: "pattern_cache \<Rightarrow> go_string \<Rightarrow> pattern \<times> pattern_cache" where
  "compiledIssueKeyPattern cache projectKey =
     (case cache projectKey of
        Some p \<Rightarrow> (p, cache)
      | None \<Rightarrow>
          (let p = issue_pattern projectKey in (p, cache(projectKey \<mapsto> p))))"

definition cache_ok :: "pattern_cache \<Rightarrow> bool" where
  "cache_ok cache = (\<forall>k p. cache k = Some p \<longrightarrow> p = issue_pattern k)"

lemma cache_ok_empty [simp]: "cache_ok Map.empty"
  by (simp add: cache_ok_def)

lemma compiledIssueKeyPattern_ok:
  assumes "cache_ok cache"
  shows "fst (compiledIssueKeyPattern cache k) = issue_pattern k"
    "cache_ok (snd (compiledIssueKeyPattern cache k))"
  using assms by (auto simp: compiledIssueKeyPattern_def cache_ok_def Let_def split: option.splits)

section \<open>IssueKeys\<close>

text \<open>
  \<open>strings.ToUpper\<close> on the bytes a match can hold: ASCII letters change case, U+017F
  becomes \<open>S\<close>, and U+212A is an upper-case letter already.
\<close>

fun ToUpper :: "go_string \<Rightarrow> go_string" where
  "ToUpper (c # d # cs) =
     (if char_code c = 197 \<and> char_code d = 191 then CHR ''S'' # ToUpper cs
      else upper_char c # ToUpper (d # cs))"
| "ToUpper [c] = [upper_char c]"
| "ToUpper [] = []"

fun collect_keys :: "(go_string \<Rightarrow> bool) \<Rightarrow> go_string list \<Rightarrow> go_string list \<Rightarrow> go_string list" where
  "collect_keys seen result [] = result"
| "collect_keys seen result (m # ms) =
     (let upper = ToUpper m
      in if \<not> seen upper then collect_keys (seen(upper := True)) (result @ [upper]) ms
         else collect_keys seen result ms)"

definition IssueKeys :: "pattern_cache \<Rightarrow> go_string \<Rightarrow> go_string \<Rightarrow> go_string list \<times> pattern_cache" where
  "IssueKeys cache projectKey text =
     (let (pattern, cache') = compiledIssueKeyPattern cache projectKey;
          matches = FindAllString pattern text
      in (collect_keys (\<lambda>_. False) [] matches, cache'))"

definition IssueKeysFromBranchAndTitle ::
    "pattern_cache \<Rightarrow> go_string \<Rightarrow> go_string \<Rightarrow> go_string \<Rightarrow> go_string list \<times> pattern_cache" where
  "IssueKeysFromBranchAndTitle cache projectKey branch title =
     (let (keys, cache1) = IssueKeys cache projectKey branch
      in if length keys > 0 then (keys, cache1) else IssueKeys cache1 projectKey title)"

definition IssueKeysFromEvent ::
    "pattern_cache \<Rightarrow> go_string \<Rightarrow> go_string \<Rightarrow> go_string \<Rightarrow> go_string list
      \<Rightarrow> go_string list \<times> pattern_cache" where
  "IssueKeysFromEvent cache projectKey branch title commitMessages =
     (let (keys, cache1) = IssueKeys cache projectKey branch
      in if length keys > 0 then (keys, cache1)
         else let (keys, cache2) = IssueKeys cache1 projectKey title
              in if length keys > 0 then (keys, cache2)
                 else if length commitMessages > 0
                      then IssueKeys cache2 projectKey (Join commitMessages '' '')
                      else ([], cache2))"

section \<open>The keys without the cache\<close>

definition keep_first :: "'a list \<Rightarrow> 'a list" where
  "keep_first xs = rev (remdups (rev xs))"

definition issue_keys :: "go_string \<Rightarrow> go_string \<Rightarrow> go_string list" where
  "issue_keys projectKey text =
     keep_first (map ToUpper (FindAllString (issue_pattern projectKey) text))"

definition first_keys :: "go_string \<Rightarrow> go_string list \<Rightarrow> go_string list" where
  "first_keys projectKey texts =
     (case List.find (\<lambda>t. issue_keys projectKey t \<noteq> []) texts of
        None \<Rightarrow> [] | Some t \<Rightarrow> issue_keys projectKey t)"

lemma keep_first_simps [simp]:
  "keep_first [] = []"
  "keep_first (xs @ [x]) = (if x \<in> set xs then keep_first xs else keep_first xs @ [x])"
  by (simp_all add: keep_first_def)

lemma set_keep_first [simp]: "set (keep_first xs) = set xs"
  by (simp add: keep_first_def)

lemma distinct_keep_first [simp]: "distinct (keep_first xs)"
  by (simp add: keep_first_def)

lemma keep_first_Nil_iff [simp]: "keep_first xs = [] \<longleftrightarrow> xs = []"
  using set_keep_first [of xs] by (metis set_empty)

lemma collect_keys_eq:
  "collect_keys (\<lambda>k. k \<in> set xs) (keep_first xs) ms = keep_first (xs @ map ToUpper ms)"
proof (induction ms arbitrary: xs)
  case Nil
  then show ?case by simp
next
  case (Cons m ms)
  have seen: "(\<lambda>k. k \<in> set xs)(ToUpper m := True) = (\<lambda>k. k \<in> set (xs @ [ToUpper m]))"
    by (simp add: fun_eq_iff)
  show ?case
  proof (cases "ToUpper m \<in> set xs")
    case True
    then have "(\<lambda>k. k \<in> set xs) = (\<lambda>k. k \<in> set (xs @ [ToUpper m]))" by auto
    with True Cons.IH [of "xs @ [ToUpper m]"] show ?thesis by simp
  next
    case False
    with Cons.IH [of "xs @ [ToUpper m]"] show ?thesis by (simp add: Let_def seen)
  qed
qed

lemma IssueKeys_eq:
  assumes "cache_ok cache"
  shows "fst (IssueKeys cache k text) = issue_keys k text"
    "cache_ok (snd (IssueKeys cache k text))"
  using compiledIssueKeyPattern_ok [OF assms, of k]
    collect_keys_eq [of "[]"]
  by (auto simp: IssueKeys_def issue_keys_def Let_def split: prod.splits)

lemma IssueKeysFromEvent_eq:
  assumes "cache_ok cache"
  shows "fst (IssueKeysFromEvent cache k branch title msgs) =
      first_keys k ([branch, title] @ (if msgs = [] then [] else [Join msgs '' '']))"
    "cache_ok (snd (IssueKeysFromEvent cache k branch title msgs))"
proof -
  obtain k1 c1 where 1: "IssueKeys cache k branch = (k1, c1)" by fastforce
  obtain k2 c2 where 2: "IssueKeys c1 k title = (k2, c2)" by fastforce
  obtain k3 c3 where 3: "IssueKeys c2 k (Join msgs '' '') = (k3, c3)" by fastforce
  have "k1 = issue_keys k branch" and c1: "cache_ok c1"
    using IssueKeys_eq [OF assms, of k branch] 1 by simp_all
  moreover have "k2 = issue_keys k title" and c2: "cache_ok c2"
    using IssueKeys_eq [OF c1, of k title] 2 by simp_all
  moreover have "k3 = issue_keys k (Join msgs '' '')" and "cache_ok c3"
    using IssueKeys_eq [OF c2, of k "Join msgs '' ''"] 3 by simp_all
  ultimately show "fst (IssueKeysFromEvent cache k branch title msgs) =
      first_keys k ([branch, title] @ (if msgs = [] then [] else [Join msgs '' '']))"
    "cache_ok (snd (IssueKeysFromEvent cache k branch title msgs))"
    by (auto simp: IssueKeysFromEvent_def 1 2 3 Let_def first_keys_def)
qed

section \<open>What a match is\<close>

text \<open>
  \<open>mentions P ds text\<close>: somewhere in the text the project key stands, in any case,
  followed by a dash and the digits \<open>ds\<close>, with a word boundary on both sides.
\<close>

definition occurs :: "go_string \<Rightarrow> char option \<Rightarrow> go_string \<Rightarrow> go_string \<Rightarrow> go_string \<Rightarrow> go_string
    \<Rightarrow> go_string \<Rightarrow> bool" where
  "occurs P prev s pre lit ds post =
     (s = pre @ lit @ ''-'' @ ds @ post \<and> fold_prefix P lit = Some (length lit) \<and>
      ds \<noteq> [] \<and> list_all is_digit ds \<and> at_boundary (last_of prev pre) (lit @ ''-'') \<and>
      \<not> word_at post)"

definition mentions :: "go_string \<Rightarrow> go_string \<Rightarrow> go_string \<Rightarrow> bool" where
  "mentions P ds text = (\<exists>pre lit post. occurs P None text pre lit ds post)"

definition project_key_ok :: "go_string \<Rightarrow> bool" where
  "project_key_ok P = (P \<noteq> [] \<and> ascii P \<and> CHR ''-'' \<notin> set P \<and> \<not> is_digit (hd P))"

lemma fold_step_append: "fold_step c s = Some n \<Longrightarrow> fold_step c (s @ t) = Some n"
  by (cases s) (auto simp: fold_step_def HasPrefix_iff long_s_def kelvin_def split: if_splits)

lemma fold_step_take: "fold_step c s = Some n \<Longrightarrow> fold_step c (take n s) = Some n"
  by (cases s) (auto simp: fold_step_def HasPrefix_iff long_s_def kelvin_def split: if_splits)

lemma fold_prefix_append: "fold_prefix P s = Some n \<Longrightarrow> fold_prefix P (s @ t) = Some n"
proof (induction P arbitrary: s n)
  case (Cons k ks)
  then obtain a b where a: "fold_step k s = Some a" and b: "fold_prefix ks (drop a s) = Some b"
    and n: "n = a + b" by (auto split: option.splits)
  with Cons.IH [OF b] fold_step_append [OF a, of t] fold_step_Some(2) [OF a] show ?case by simp
qed simp

lemma fold_prefix_take: "fold_prefix P s = Some n \<Longrightarrow> fold_prefix P (take n s) = Some n"
proof (induction P arbitrary: s n)
  case (Cons k ks)
  then obtain a b where a: "fold_step k s = Some a" and b: "fold_prefix ks (drop a s) = Some b"
    and n: "n = a + b" by (auto split: option.splits)
  have "fold_step k (take n s) = Some a"
    using fold_step_append [OF fold_step_take [OF a]] by (simp add: n take_add)
  moreover have "drop a (take n s) = take b (drop a s)" by (simp add: n take_drop add.commute)
  ultimately show ?case using Cons.IH [OF b] n by simp
qed simp

lemma fold_step_dash_eq:
  "fold_step CHR ''-'' s = (if s \<noteq> [] \<and> hd s = CHR ''-'' then Some 1 else None)"
  by (simp add: fold_step_def)

lemma at_boundary_hd: "at_boundary prev (lit @ ''-'' @ t) = at_boundary prev (lit @ ''-'')"
  by (cases lit) (simp_all add: at_boundary_def word_at_def)

lemma issue_match_iff:
  "re_match (issue_pattern P) prev s = Some n \<longleftrightarrow>
    (\<exists>lit ds post. occurs P prev s [] lit ds post \<and> n = length lit + 1 + length ds)"
proof
  assume m: "re_match (issue_pattern P) prev s = Some n"
  then obtain a where a: "fold_prefix P s = Some a" and b: "at_boundary prev s"
    and hd: "drop a s \<noteq> []" "hd (drop a s) = CHR ''-''"
    and ds: "takeWhile is_digit (tl (drop a s)) \<noteq> []" "\<not> word_at (dropWhile is_digit (tl (drop a s)))"
    and n: "n = a + 1 + length (takeWhile is_digit (tl (drop a s)))"
    by (auto simp: issue_pattern_def re_match_lits fold_step_dash_eq re_match_digits drop_Suc tl_drop
        split: option.splits if_splits simp del: re_match.simps(4))
  let ?ds = "takeWhile is_digit (tl (drop a s))" and ?post = "dropWhile is_digit (tl (drop a s))"
  have "s = take a s @ ''-'' @ ?ds @ ?post"
    using hd by (metis append_Cons append_Nil append_take_drop_id hd_Cons_tl takeWhile_dropWhile_id)
  moreover have "length (take a s) = a" using fold_prefix_le [OF a] by simp
  ultimately have "occurs P prev s [] (take a s) ?ds ?post"
    using fold_prefix_take [OF a] b ds at_boundary_hd [of prev "take a s" "?ds @ ?post"]
    by (auto simp: occurs_def last_of_def list_all_iff dest: set_takeWhileD)
  with n show "\<exists>lit ds post. occurs P prev s [] lit ds post \<and> n = length lit + 1 + length ds"
    using \<open>length (take a s) = a\<close> by metis
next
  assume "\<exists>lit ds post. occurs P prev s [] lit ds post \<and> n = length lit + 1 + length ds"
  then obtain lit ds post where o: "occurs P prev s [] lit ds post"
    and n: "n = length lit + 1 + length ds" by blast
  then have s: "s = lit @ ''-'' @ ds @ post" and "\<not> word_at post" and "list_all is_digit ds"
    and lit: "fold_prefix P lit = Some (length lit)" and "ds \<noteq> []"
    and b: "at_boundary prev (lit @ ''-'')"
    by (auto simp: occurs_def last_of_def)
  then have run: "takeWhile is_digit (ds @ post) = ds" "dropWhile is_digit (ds @ post) = post"
    by (cases post; auto simp: word_at_def list_all_iff)+
  show "re_match (issue_pattern P) prev s = Some n"
    using fold_prefix_append [OF lit, of "''-'' @ ds @ post"] b at_boundary_hd [of prev lit "ds @ post"]
      run n \<open>ds \<noteq> []\<close> \<open>\<not> word_at post\<close>
    by (simp add: issue_pattern_def re_match_lits fold_step_dash_eq re_match_digits s
        del: re_match.simps(4))
qed

lemma issue_pattern_pos: "re_match (issue_pattern P) prev s \<noteq> Some 0"
  using issue_match_iff [of P prev s 0] by auto

section \<open>Exactness\<close>

lemma occurs_same:
  assumes "occurs P prev s [] lit ds post" "occurs P prev s [] lit' ds' post'"
  shows "lit = lit' \<and> ds = ds' \<and> post = post'"
proof -
  have len: "length l = a" if "occurs P prev s [] l d p" "fold_prefix P s = Some a" for l d p a
    using that fold_prefix_append [of P l "length l" "''-'' @ d @ p"] by (simp add: occurs_def)
  have run: "takeWhile is_digit (d @ p) = d" if "occurs P prev s [] l d p" for l d p
    using that by (cases p) (auto simp: occurs_def word_at_def list_all_iff)
  obtain a where "fold_prefix P s = Some a"
    using assms(1) fold_prefix_append [of P lit "length lit" "''-'' @ ds @ post"]
    by (auto simp: occurs_def)
  then have "length lit = length lit'" using assms len by metis
  then have "lit = lit'" "ds @ post = ds' @ post'" using assms by (auto simp: occurs_def)
  then show ?thesis using run assms by (metis same_append_eq)
qed

lemma occurs_no_overlap:
  assumes P: "project_key_ok P"
    and m: "occurs P prev s [] lit ds post" and o: "occurs P prev s pre lit' ds' post'"
  shows "pre = [] \<or> length lit + 1 + length ds \<le> length pre"
proof (rule ccontr)
  assume neg: "\<not> ?thesis"
  let ?i = "length pre" and ?a = "length lit" and ?b = "length lit'"
  obtain k ks where Pk: "P = k # ks" "k \<noteq> CHR ''-''" "\<not> is_digit k" "char_code k < 128"
    using P by (cases P) (auto simp: project_key_ok_def ascii_def)
  have asc: "ascii P" and dash: "CHR ''-'' \<notin> set P" using P by (auto simp: project_key_ok_def)
  have s1: "s = lit @ ''-'' @ ds @ post" and f1: "fold_prefix P lit = Some ?a"
    and dg: "list_all is_digit ds" using m by (auto simp: occurs_def)
  have s2: "drop ?i s = lit' @ ''-'' @ ds' @ post'" and f2: "fold_prefix P lit' = Some ?b"
    using o by (auto simp: occurs_def)
  have "fold_prefix P (drop ?i s) = Some ?b"
    unfolding s2 using fold_prefix_append [OF f2] by simp
  then obtain n where st: "fold_step k (drop ?i s) = Some n"
    by (auto simp: Pk(1) split: option.splits)
  consider "?i < ?a" | "?i = ?a" | "?a < ?i" "?i < ?a + 1 + length ds"
    using neg by linarith
  then show False
  proof cases
    case 1
    have no: "CHR ''-'' \<notin> set lit" "CHR ''-'' \<notin> set lit'"
      using fold_prefix_dash [OF f1 dash] fold_prefix_dash [OF f2 dash] by simp_all
    have d: "drop ?i lit @ ''-'' @ ds @ post = lit' @ ''-'' @ ds' @ post'"
      using s1 s2 1 by simp
    then have lit': "lit' = drop ?i lit"
    proof -
      have *: "takeWhile (\<lambda>c. c \<noteq> CHR ''-'') (u @ CHR ''-'' # v) = u" if "CHR ''-'' \<notin> set u" for u v
        using that by (induction u) auto
      have "CHR ''-'' \<notin> set (drop ?i lit)" using no(1) by (meson in_set_dropD)
      then show ?thesis using d * no(2) by (metis append_Cons append_Nil)
    qed
    have "leads lit = length P" "leads lit' = length P"
      using fold_prefix_leads [OF f1 asc] fold_prefix_leads [OF f2 asc] by simp_all
    then have "leads (take ?i lit) = 0"
      using leads_append [of "take ?i lit" "drop ?i lit"] by (simp add: lit')
    moreover have "\<not> is_cont (hd lit)"
      using f1 fold_step_leads(2) [of k lit] Pk by (auto split: option.splits)
    ultimately show False
      using 1 neg by (cases lit; cases pre) (auto simp: leads_def)
  next
    case 2
    then have "drop ?i s = CHR ''-'' # ds @ post" by (simp add: s1)
    with st Pk show False
      by (auto simp: fold_step_def HasPrefix_iff long_s_def kelvin_def split: if_splits
          dest: arg_cong [where f = char_code])
  next
    case 3
    then obtain d r where d: "drop ?i s = d # r" "is_digit d"
    proof -
      obtain j where j: "?i = Suc ?a + j" "j < length ds"
        using 3 by (metis add.commute add_Suc less_iff_Suc_add nat_add_left_cancel_less plus_1_eq_Suc
            add_Suc_right)
      then have "drop ?i s = drop j ds @ post" by (simp add: s1)
      moreover have "is_digit (ds ! j)" using j dg by (simp add: list_all_length)
      ultimately show ?thesis using that j by (simp add: Cons_nth_drop_Suc [symmetric])
    qed
    then have "upper_char d = d" by simp
    moreover have "d \<noteq> byte 197" "d \<noteq> byte 226" using d(2) by (auto simp: is_digit_def)
    ultimately have "d = upper_char k"
      using st d by (auto simp: fold_step_def HasPrefix_iff long_s_def kelvin_def split: if_splits)
    with d(2) Pk(3) show False by simp
  qed
qed

lemma find_all_sound:
  "m \<in> set (find_all (issue_pattern P) prev s) \<Longrightarrow>
    \<exists>pre lit ds post. occurs P prev s pre lit ds post \<and> m = lit @ ''-'' @ ds"
proof (induction "issue_pattern P" prev s rule: find_all.induct)
  case (1 prev)
  then show ?case by simp
next
  case (2 prev c cs)
  let ?s = "c # cs"
  have extend: "\<exists>pre lit ds post. occurs P prev ?s pre lit ds post \<and> m = lit @ ''-'' @ ds"
    if ex: "\<exists>pre lit ds post. occurs P (last_of prev u) v pre lit ds post \<and> m = lit @ ''-'' @ ds"
      and s: "?s = u @ v" for u v
  proof -
    from ex obtain pre lit ds post where
      "occurs P (last_of prev u) v pre lit ds post" "m = lit @ ''-'' @ ds" by blast
    then have "occurs P prev ?s (u @ pre) lit ds post \<and> m = lit @ ''-'' @ ds"
      by (simp add: occurs_def last_of_append s)
    then show ?thesis by blast
  qed
  show ?case
  proof (cases "re_match (issue_pattern P) prev ?s")
    case None
    with 2(4) have "m \<in> set (find_all (issue_pattern P) (Some c) cs)" by simp
    from 2(1) [OF None this] extend [of "[c]" cs] show ?thesis by (simp add: last_of_def)
  next
    case (Some n)
    with issue_match_iff [of P prev ?s n] obtain lit ds post where
      o: "occurs P prev ?s [] lit ds post" and n: "n = length lit + 1 + length ds" by blast
    obtain n' where n': "n = Suc n'" using n by simp
    from 2(4) Some n' have "m = take (Suc n') ?s \<or>
        m \<in> set (find_all (issue_pattern P) (last_of prev (take (Suc n') ?s)) (drop n' cs))"
      by simp
    moreover have "take n ?s = lit @ ''-'' @ ds" using o n by (simp add: occurs_def)
    ultimately have m: "m = lit @ ''-'' @ ds \<or>
        m \<in> set (find_all (issue_pattern P) (last_of prev (take n ?s)) (drop n' cs))"
      by (simp only: n')
    have s: "?s = take n ?s @ drop n' cs" using n' by simp
    from m show ?thesis
    proof
      assume "m = lit @ ''-'' @ ds"
      with o show ?thesis by blast
    next
      assume "m \<in> set (find_all (issue_pattern P) (last_of prev (take n ?s)) (drop n' cs))"
      from extend [OF 2(3) [OF Some n' this [unfolded n']] s [unfolded n']] show ?thesis .
    qed
  qed
qed

lemma find_all_complete:
  assumes "project_key_ok P" "occurs P prev s pre lit ds post"
  shows "lit @ ''-'' @ ds \<in> set (find_all (issue_pattern P) prev s)"
  using assms(2)
proof (induction "issue_pattern P" prev s arbitrary: pre rule: find_all.induct)
  case (1 prev)
  then show ?case by (simp add: occurs_def)
next
  case (2 prev c cs)
  let ?s = "c # cs"
  show ?case
  proof (cases "re_match (issue_pattern P) prev ?s")
    case None
    with 2(4) obtain pre' where "pre = c # pre'"
      using issue_match_iff [of P prev ?s "length lit + 1 + length ds"]
      by (cases pre) (auto simp: occurs_def)
    with 2(4) have "occurs P (Some c) cs pre' lit ds post"
      using last_of_append [of prev "[c]" pre'] by (simp add: occurs_def last_of_def)
    with 2(1) [OF None] None show ?thesis by simp
  next
    case (Some n)
    with issue_match_iff [of P prev ?s n] obtain lit' ds' post' where
      o: "occurs P prev ?s [] lit' ds' post'" and n: "n = length lit' + 1 + length ds'" by blast
    obtain n' where n': "n = Suc n'" using n by simp
    show ?thesis
    proof (cases "pre = []")
      case True
      with occurs_same [OF _ o, of lit ds post] 2(4) have "lit = lit'" "ds = ds'" by simp_all
      moreover have "take n ?s = lit' @ ''-'' @ ds'" using o n by (simp add: occurs_def)
      ultimately show ?thesis using Some n' by simp
    next
      case False
      then have le: "n \<le> length pre"
        using occurs_no_overlap [OF assms(1) o 2(4)] n by simp
      then have pre: "take n ?s = take n pre" "drop n' cs = drop n pre @ lit @ ''-'' @ ds @ post"
        using 2(4) n' by (auto simp: occurs_def) (metis drop_Suc_Cons drop_append diff_is_0_eq drop0)
      have "last_of (last_of prev (take n ?s)) (drop n pre) = last_of prev pre"
        by (simp only: pre(1) last_of_append append_take_drop_id)
      with pre(2) have "occurs P (last_of prev (take n ?s)) (drop n' cs) (drop n pre) lit ds post"
        using 2(4) by (simp add: occurs_def)
      with 2(3) [OF Some n'] Some n' show ?thesis by simp
    qed
  qed
qed

lemma FindAllString_issue:
  assumes "project_key_ok P"
  shows "set (FindAllString (issue_pattern P) text) =
    {lit @ ''-'' @ ds | pre lit ds post. occurs P None text pre lit ds post}"
  using find_all_sound find_all_complete [OF assms]
  unfolding FindAllString_def by fastforce

lemma ToUpper_step:
  assumes "fold_step c s = Some n" "char_code c < 128" "upper_char c \<noteq> CHR ''K''"
  shows "ToUpper (take n s @ t) = upper_char c # ToUpper t"
proof -
  have ascii_head: "ToUpper (d # t) = upper_char d # ToUpper t" if "char_code d < 128" for d
    using that by (cases t) auto
  have S: "upper_char CHR ''S'' = CHR ''S''" by (simp add: upper_char_def is_lower_def)
  consider d ds where "s = d # ds" "n = 1" "upper_char d = upper_char c"
    | "n = 2" "upper_char c = CHR ''S''" "HasPrefix s long_s"
    using assms by (cases s) (auto simp: fold_step_def split: if_splits)
  then show ?thesis
  proof cases
    case 1
    then show ?thesis using ascii_head [OF upper_char_cases [OF _ assms(2)]] by simp
  next
    case 2
    then show ?thesis by (auto simp: HasPrefix_iff long_s_def)
  qed
qed

lemma ToUpper_lits:
  assumes "fold_prefix P lit = Some (length lit)" "ascii P" "CHR ''K'' \<notin> set (map upper_char P)"
  shows "ToUpper (lit @ t) = map upper_char P @ ToUpper t"
proof -
  have "ToUpper (take n s @ t) = map upper_char P @ ToUpper t" if "fold_prefix P s = Some n" for s n
    using that assms(2,3)
  proof (induction P arbitrary: s n)
    case (Cons k ks)
    then obtain a b where a: "fold_step k s = Some a" and b: "fold_prefix ks (drop a s) = Some b"
      and n: "n = a + b" by (auto split: option.splits)
    have "ToUpper (take b (drop a s) @ t) = map upper_char ks @ ToUpper t"
      using Cons.IH [OF b] Cons.prems by (simp add: ascii_def)
    then show ?case
      using ToUpper_step [OF a, of "take b (drop a s) @ t"] Cons.prems n
      by (auto simp: take_add ascii_def)
  qed simp
  from this [OF assms(1)] show ?thesis by simp
qed

lemma ToUpper_dash_digits: "list_all is_digit ds \<Longrightarrow> ToUpper (''-'' @ ds) = ''-'' @ ds"
proof -
  have "ToUpper ds = ds" if "list_all is_digit ds" for ds
    using that by (induction ds rule: ToUpper.induct) (auto simp: is_digit_def)
  moreover assume "list_all is_digit ds"
  ultimately show ?thesis by (cases ds) auto
qed

lemma set_issue_keys:
  assumes P: "project_key_ok P" "CHR ''K'' \<notin> set (map upper_char P)"
  shows "set (issue_keys P text) = {map upper_char P @ ''-'' @ ds | ds. mentions P ds text}"
proof -
  have "ToUpper (lit @ ''-'' @ ds) = map upper_char P @ ''-'' @ ds"
    if "occurs P None text pre lit ds post" for pre lit ds post
    using ToUpper_lits [of P lit "''-'' @ ds"] ToUpper_dash_digits [of ds] that P
    by (simp add: occurs_def project_key_ok_def)
  then show ?thesis
    unfolding issue_keys_def set_keep_first set_map FindAllString_issue [OF P(1)] mentions_def
    by (auto simp: image_iff) metis+
qed

section \<open>The keys by reading every position\<close>

text \<open>
  A plain reading of the text, without a pattern: at each position, from left to right, the
  number that is mentioned there, if any.
\<close>

definition mention_here :: "go_string \<Rightarrow> char option \<Rightarrow> go_string \<Rightarrow> go_string option" where
  "mention_here P prev s =
     (case fold_prefix P s of
        None \<Rightarrow> None
      | Some a \<Rightarrow>
          (case drop a s of
             [] \<Rightarrow> None
           | c # r \<Rightarrow>
               if c = CHR ''-'' \<and> takeWhile is_digit r \<noteq> [] \<and> \<not> word_at (dropWhile is_digit r) \<and>
                  at_boundary prev s
               then Some (takeWhile is_digit r) else None))"

fun all_mentions :: "go_string \<Rightarrow> char option \<Rightarrow> go_string \<Rightarrow> go_string list" where
  "all_mentions P prev [] = []"
| "all_mentions P prev (c # cs) =
     (case mention_here P prev (c # cs) of None \<Rightarrow> [] | Some ds \<Rightarrow> [ds]) @
     all_mentions P (Some c) cs"

definition plain_keys :: "go_string \<Rightarrow> go_string \<Rightarrow> go_string list" where
  "plain_keys P text =
     keep_first (map (\<lambda>ds. map upper_char P @ ''-'' @ ds) (all_mentions P None text))"

lemma mention_here_iff:
  "mention_here P prev s = Some ds \<longleftrightarrow> (\<exists>lit post. occurs P prev s [] lit ds post)"
proof
  assume "mention_here P prev s = Some ds"
  then obtain a r where a: "fold_prefix P s = Some a" "drop a s = CHR ''-'' # r" "at_boundary prev s"
    and ds: "ds = takeWhile is_digit r" "ds \<noteq> []" "\<not> word_at (dropWhile is_digit r)"
    by (auto simp: mention_here_def split: option.splits list.splits if_splits)
  let ?post = "dropWhile is_digit r"
  have s: "s = take a s @ ''-'' @ ds @ ?post"
    using a(2) ds(1) by (metis append_Cons append_Nil append_take_drop_id takeWhile_dropWhile_id)
  moreover have "length (take a s) = a" using fold_prefix_le [OF a(1)] by simp
  ultimately have "occurs P prev s [] (take a s) ds ?post"
    using fold_prefix_take [OF a(1)] a(3) ds at_boundary_hd [of prev "take a s" "ds @ ?post"]
    by (auto simp: occurs_def last_of_def list_all_iff dest: set_takeWhileD)
  then show "\<exists>lit post. occurs P prev s [] lit ds post" by blast
next
  assume "\<exists>lit post. occurs P prev s [] lit ds post"
  then obtain lit post where s: "s = lit @ ''-'' @ ds @ post" and "\<not> word_at post" "list_all is_digit ds"
    and lit: "fold_prefix P lit = Some (length lit)" and "ds \<noteq> []"
    and b: "at_boundary prev (lit @ ''-'')"
    by (auto simp: occurs_def last_of_def)
  then have run: "takeWhile is_digit (ds @ post) = ds" "dropWhile is_digit (ds @ post) = post"
    by (cases post; auto simp: word_at_def list_all_iff)+
  show "mention_here P prev s = Some ds"
    using fold_prefix_append [OF lit, of "''-'' @ ds @ post"] b at_boundary_hd [of prev lit "ds @ post"]
      run \<open>ds \<noteq> []\<close> \<open>\<not> word_at post\<close>
    by (simp add: mention_here_def s)
qed

lemma all_mentions_skip:
  assumes "\<And>pre rest. xs = pre @ rest \<Longrightarrow> rest \<noteq> [] \<Longrightarrow> mention_here P (last_of prev pre) (rest @ ys) = None"
  shows "all_mentions P prev (xs @ ys) = all_mentions P (last_of prev xs) ys"
  using assms
proof (induction xs arbitrary: prev)
  case (Cons x xs)
  have "mention_here P prev (x # xs @ ys) = None"
    using Cons.prems [of "[]" "x # xs"] by (simp add: last_of_def)
  moreover have "all_mentions P (Some x) (xs @ ys) = all_mentions P (last_of (Some x) xs) ys"
  proof (rule Cons.IH)
    fix pre rest assume "xs = pre @ rest" "rest \<noteq> []"
    then show "mention_here P (last_of (Some x) pre) (rest @ ys) = None"
      using Cons.prems [of "x # pre" rest] by (simp add: last_of_def split: if_splits)
  qed
  ultimately show ?case by (simp add: last_of_def split: if_splits)
qed (simp add: last_of_def)

lemma find_all_mentions:
  assumes P: "project_key_ok P" "CHR ''K'' \<notin> set (map upper_char P)"
  shows "map ToUpper (find_all (issue_pattern P) prev s) =
    map (\<lambda>ds. map upper_char P @ ''-'' @ ds) (all_mentions P prev s)"
proof (induction "issue_pattern P" prev s rule: find_all.induct)
  case (2 prev c cs)
  let ?s = "c # cs"
  show ?case
  proof (cases "re_match (issue_pattern P) prev ?s")
    case None
    then have "mention_here P prev ?s = None"
      using issue_match_iff [of P prev ?s] mention_here_iff [of P prev ?s]
      by (metis not_Some_eq)
    with None 2(1) show ?thesis by simp
  next
    case (Some n)
    with issue_match_iff [of P prev ?s n] obtain lit ds post where
      o: "occurs P prev ?s [] lit ds post" and n: "n = length lit + 1 + length ds" by blast
    obtain n' where n': "n = Suc n'" using n by simp
    have m: "mention_here P prev ?s = Some ds" using o mention_here_iff by blast
    have take: "take n ?s = lit @ ''-'' @ ds" using o n by (simp add: occurs_def)
    have up: "ToUpper (take n ?s) = map upper_char P @ ''-'' @ ds"
      unfolding take using ToUpper_lits [of P lit "''-'' @ ds"] ToUpper_dash_digits [of ds] o P
      by (simp add: occurs_def project_key_ok_def)
    have "all_mentions P (Some c) (take n' cs @ drop n' cs) =
        all_mentions P (last_of (Some c) (take n' cs)) (drop n' cs)"
    proof (rule all_mentions_skip)
      fix pre rest assume split: "take n' cs = pre @ rest" "rest \<noteq> []"
      show "mention_here P (last_of (Some c) pre) (rest @ drop n' cs) = None"
      proof (rule ccontr)
        assume "mention_here P (last_of (Some c) pre) (rest @ drop n' cs) \<noteq> None"
        then obtain ds' where "mention_here P (last_of (Some c) pre) (rest @ drop n' cs) = Some ds'"
          by blast
        then obtain lit' post' where "occurs P (last_of (Some c) pre) (rest @ drop n' cs) [] lit' ds' post'"
          using mention_here_iff by blast
        moreover have "cs = pre @ rest @ drop n' cs"
          using split(1) by (metis append_assoc append_take_drop_id)
        ultimately have "occurs P prev ?s (c # pre) lit' ds' post'"
          by (auto simp: occurs_def last_of_def split: if_splits)
        from occurs_no_overlap [OF P(1) o this] n n' have "n' \<le> length pre" by simp
        moreover have "length pre + length rest \<le> n'" using arg_cong [OF split(1), of length] by simp
        ultimately show False using split(2) by (cases rest) simp_all
      qed
    qed
    then have "all_mentions P (Some c) cs = all_mentions P (last_of prev (take n ?s)) (drop n' cs)"
      by (simp add: n' last_of_def split: if_splits)
    with 2(3) [OF Some n'] Some n' m up show ?thesis by simp
  qed
qed simp

lemma issue_keys_plain:
  assumes "project_key_ok P" "CHR ''K'' \<notin> set (map upper_char P)"
  shows "issue_keys P text = plain_keys P text"
  using find_all_mentions [OF assms] by (simp add: issue_keys_def plain_keys_def FindAllString_def)

section \<open>Properties\<close>

text \<open>
  C15. For a project key without the letter K, the issue keys of a text are those that a plain
  reading finds at every position from left to right, each once and in the order of first
  mention: the upper-case key, a dash and the number, for every number the text mentions behind
  the project key (in any case) between word boundaries. That a match is searched only after
  the end of the one before loses none.
\<close>

theorem issue_keys_exact:
  assumes "cache_ok cache" "project_key_ok P" "CHR ''K'' \<notin> set (map upper_char P)"
  shows "fst (IssueKeys cache P text) = plain_keys P text \<and>
    set (plain_keys P text) = {map upper_char P @ ''-'' @ ds | ds. mentions P ds text} \<and>
    distinct (plain_keys P text)"
  using IssueKeys_eq(1) [OF assms(1)] issue_keys_plain [OF assms(2,3)] set_issue_keys [OF assms(2,3)]
  by (simp add: plain_keys_def)

theorem issue_keys_exact_witness:
  "fst (IssueKeys Map.empty ''RIS'' ''fix ris-12 RIS-7 ris-12'') = plain_keys ''RIS'' ''fix ris-12 RIS-7 ris-12'' \<and>
   plain_keys ''RIS'' ''fix ris-12 RIS-7 ris-12'' = [''RIS-12'', ''RIS-7'']"
proof -
  have k: "project_key_ok ''RIS''" "CHR ''K'' \<notin> set (map upper_char ''RIS'')"
    by (simp_all add: project_key_ok_def ascii_def is_digit_def upper_char_def is_lower_def)
  have "plain_keys ''RIS'' ''fix ris-12 RIS-7 ris-12'' = [''RIS-12'', ''RIS-7'']" by code_simp
  then show ?thesis using k issue_keys_exact [OF cache_ok_empty k] by simp
qed

text \<open>
  With any correct cache, the keys of an event are those of the first of branch, title
  and joined commit messages that has any, each once and in the order of their first mention;
  the cache stays correct.
\<close>

lemma event_keys_first_source:
  assumes "cache_ok cache"
  shows "fst (IssueKeysFromEvent cache k branch title msgs) =
      first_keys k ([branch, title] @ (if msgs = [] then [] else [Join msgs '' ''])) \<and>
    distinct (fst (IssueKeysFromEvent cache k branch title msgs)) \<and>
    cache_ok (snd (IssueKeysFromEvent cache k branch title msgs))"
  using IssueKeysFromEvent_eq [OF assms, of k branch title msgs]
  by (simp add: first_keys_def issue_keys_def split: option.split)

text \<open>
  Letter case is folded by Unicode, and upper case leaves the Kelvin sign as it is: for a
  project key with a K a text can yield a key that is not the canonical one.
\<close>

lemma kelvin_key_not_canonical:
  "fst (IssueKeys Map.empty ''AKB'' (''A'' @ kelvin @ ''B-1'')) = [''A'' @ kelvin @ ''B-1''] \<and>
   ''A'' @ kelvin @ ''B-1'' \<noteq> ''AKB-1''"
  by code_simp

end
