(* ===== verification/Go_Time.thy ===== *)
theory Go_Time
  imports Prelude
begin

text \<open>
  The part of the package \<open>time\<close> the program calls: durations, instants with the
  offset of their location, \<open>Truncate(24 * time.Hour)\<close>, \<open>Weekday\<close>,
  \<open>AddDate(0, 0, n)\<close>, \<open>Format("2006-01-02")\<close> and the JSON text of an instant.

  A \<open>time.Time\<close> is an absolute instant (nanoseconds since 1970-01-01 00:00 UTC) with
  the UTC offset of its location in seconds. The location has one offset for all
  instants (a zone without daylight saving); calendar years are those from year 1 on,
  where \<open>Truncate\<close> rounds down.
\<close>

section \<open>Durations\<close>

definition nanos_per_second :: int where "nanos_per_second = 1000000000"
definition nanos_per_minute :: int where "nanos_per_minute = 60000000000"
definition nanos_per_hour :: int where "nanos_per_hour = 3600000000000"
definition nanos_per_day :: int where "nanos_per_day = 86400000000000"

lemmas duration_defs [go_simps] =
  nanos_per_second_def nanos_per_minute_def nanos_per_hour_def nanos_per_day_def

section \<open>Weekdays\<close>

datatype weekday = Sunday | Monday | Tuesday | Wednesday | Thursday | Friday | Saturday

primrec weekday_num :: "weekday \<Rightarrow> int" where
  "weekday_num Sunday = 0"
| "weekday_num Monday = 1"
| "weekday_num Tuesday = 2"
| "weekday_num Wednesday = 3"
| "weekday_num Thursday = 4"
| "weekday_num Friday = 5"
| "weekday_num Saturday = 6"

definition weekday_of_num :: "int \<Rightarrow> weekday" where
  "weekday_of_num n =
     (if n = 0 then Sunday else if n = 1 then Monday else if n = 2 then Tuesday
      else if n = 3 then Wednesday else if n = 4 then Thursday
      else if n = 5 then Friday else Saturday)"

lemma weekday_num_range: "0 \<le> weekday_num w \<and> weekday_num w \<le> 6"
  by (cases w) simp_all

lemma weekday_num_inj [simp]: "weekday_num v = weekday_num w \<longleftrightarrow> v = w"
  by (cases v; cases w) simp_all

lemma weekday_num_of_num: "0 \<le> n \<Longrightarrow> n < 7 \<Longrightarrow> weekday_num (weekday_of_num n) = n"
  by (auto simp: weekday_of_num_def)

instantiation weekday :: linorder
begin

definition less_eq_weekday :: "weekday \<Rightarrow> weekday \<Rightarrow> bool" where
  "less_eq_weekday v w = (weekday_num v \<le> weekday_num w)"

definition less_weekday :: "weekday \<Rightarrow> weekday \<Rightarrow> bool" where
  "less_weekday v w = (weekday_num v < weekday_num w)"

instance
  by standard (auto simp: less_eq_weekday_def less_weekday_def)

end

section \<open>Instants\<close>

record go_time =
  unix_nanos :: int
  zone_offset :: int

definition utc :: "int \<Rightarrow> go_time" where
  "utc n = \<lparr>unix_nanos = n, zone_offset = 0\<rparr>"

text \<open>The calendar day of an instant in its own location, counted from 1970-01-01.\<close>

definition local_day :: "go_time \<Rightarrow> int" where
  "local_day t = (unix_nanos t + zone_offset t * nanos_per_second) div nanos_per_day"

definition Weekday :: "go_time \<Rightarrow> weekday" where
  "Weekday t = weekday_of_num ((local_day t + 4) mod 7)"

text \<open>
  \<open>Truncate\<close> works on the absolute time since the zero time, a midnight UTC: the
  location of the instant plays no part in it.
\<close>

definition Truncate_day :: "go_time \<Rightarrow> go_time" where
  "Truncate_day t = t\<lparr>unix_nanos := unix_nanos t - unix_nanos t mod nanos_per_day\<rparr>"

definition AddDate_days :: "go_time \<Rightarrow> int \<Rightarrow> go_time" where
  "AddDate_days t n = t\<lparr>unix_nanos := unix_nanos t + n * nanos_per_day\<rparr>"

lemma weekday_num_Weekday: "weekday_num (Weekday t) = (local_day t + 4) mod 7"
  by (simp add: Weekday_def weekday_num_of_num)

lemma local_day_AddDate [simp]: "local_day (AddDate_days t n) = local_day t + n"
proof -
  have "local_day (AddDate_days t n) =
      (unix_nanos t + zone_offset t * nanos_per_second + n * nanos_per_day) div nanos_per_day"
    by (simp add: local_day_def AddDate_days_def algebra_simps)
  also have "\<dots> = local_day t + n"
    by (simp add: local_day_def nanos_per_day_def)
  finally show ?thesis .
qed

lemma zone_offset_AddDate [simp]: "zone_offset (AddDate_days t n) = zone_offset t"
  by (simp add: AddDate_days_def)

lemma local_day_Truncate_utc [simp]:
  "zone_offset t = 0 \<Longrightarrow> local_day (Truncate_day t) = local_day t"
  by (simp add: local_day_def Truncate_day_def minus_mod_eq_mult_div nanos_per_day_def)

section \<open>Calendar dates\<close>

text \<open>
  Proleptic Gregorian calendar, with the year taken to start in March so that the leap
  day ends it: 400 years are 146097 days, and a century, a group of four years and a
  year each take all but the last day of theirs.
\<close>

record civil =
  civil_year :: int
  civil_month :: int
  civil_day :: int

definition civil_of_day :: "int \<Rightarrow> civil" where
  "civil_of_day n =
     (let z = n + 719468;
          era = z div 146097; doe = z mod 146097;
          c = min 3 (doe div 36524); r1 = doe - 36524 * c;
          q = r1 div 1461; r2 = r1 - 1461 * q;
          a = min 3 (r2 div 365); doy = r2 - 365 * a;
          y = 400 * era + 100 * c + 4 * q + a;
          mp = (5 * doy + 2) div 153;
          d = doy - (153 * mp + 2) div 5 + 1;
          m = (if mp < 10 then mp + 3 else mp - 9)
      in \<lparr>civil_year = (if m \<le> 2 then y + 1 else y), civil_month = m, civil_day = d\<rparr>)"

definition day_of_civil :: "civil \<Rightarrow> int" where
  "day_of_civil t =
     (let y = (if civil_month t \<le> 2 then civil_year t - 1 else civil_year t);
          mp = (if civil_month t > 2 then civil_month t - 3 else civil_month t + 9);
          doy = (153 * mp + 2) div 5 + civil_day t - 1
      in 365 * y + y div 4 - y div 100 + y div 400 + doy - 719468)"

fun pad_zero :: "nat \<Rightarrow> go_string \<Rightarrow> go_string" where
  "pad_zero 0 s = s"
| "pad_zero (Suc n) s = (if length s < Suc n then CHR ''0'' # pad_zero n s else s)"

definition Format_date :: "go_time \<Rightarrow> go_string" where
  "Format_date t =
     (let c = civil_of_day (local_day t)
      in pad_zero 4 (show_int (civil_year c)) @ ''-'' @
         pad_zero 2 (show_int (civil_month c)) @ ''-'' @
         pad_zero 2 (show_int (civil_day c)))"

text \<open>
  The text \<open>MarshalJSON\<close> gives an instant (RFC 3339, the fraction of a second without trailing
  zeros); it is an error for a year that has not four digits and for an offset of a day or more.
\<close>

definition fraction_text :: "int \<Rightarrow> go_string" where
  "fraction_text n =
     (let ds = rev (dropWhile (\<lambda>c. c = CHR ''0'') (rev (pad_zero 9 (show_int n))))
      in if ds = [] then [] else CHR ''.'' # ds)"

definition zone_text :: "int \<Rightarrow> go_string" where
  "zone_text offset =
     (let m = \<bar>offset\<bar> div 60
      in if offset = 0 then ''Z''
         else (if offset < 0 \<and> m \<noteq> 0 then ''-'' else ''+'') @
           pad_zero 2 (show_int (m div 60)) @ '':'' @ pad_zero 2 (show_int (m mod 60)))"

definition MarshalJSON_time :: "go_time \<Rightarrow> go_string option" where
  "MarshalJSON_time t =
     (let year = civil_year (civil_of_day (local_day t));
          s = (unix_nanos t + zone_offset t * nanos_per_second) mod nanos_per_day div nanos_per_second
      in if year < 0 \<or> 9999 < year \<or> 24 * 3600 \<le> \<bar>zone_offset t\<bar> then None
         else Some (Format_date t @ ''T'' @ pad_zero 2 (show_int (s div 3600)) @ '':'' @
           pad_zero 2 (show_int (s div 60 mod 60)) @ '':'' @ pad_zero 2 (show_int (s mod 60)) @
           fraction_text (unix_nanos t mod nanos_per_second) @ zone_text (zone_offset t)))"

lemma div_bounds:
  fixes x :: int
  assumes "0 < k"
  shows "k * (x div k) \<le> x" "x < k * (x div k) + k"
  using assms pos_mod_sign [of k x] pos_mod_bound [of k x] mult_div_mod_eq [of k x]
  by linarith+

lemma march_month_range:
  fixes doy :: int
  assumes "0 \<le> doy" "doy \<le> 365"
  shows "0 \<le> (5 * doy + 2) div 153" "(5 * doy + 2) div 153 \<le> 11"
    "(153 * ((5 * doy + 2) div 153) + 2) div 5 \<le> doy"
    "doy \<le> (153 * ((5 * doy + 2) div 153) + 2) div 5 + 30"
  using assms div_bounds [of 153 "5 * doy + 2"]
    div_bounds [of 5 "153 * ((5 * doy + 2) div 153) + 2"]
  by linarith+

lemma cycle_bounds:
  fixes x :: int
  assumes "0 \<le> x" "x \<le> 4 * k" "0 < k"
  shows "0 \<le> x - k * min 3 (x div k)" "x - k * min 3 (x div k) \<le> k"
    "0 \<le> min 3 (x div k)" "min 3 (x div k) \<le> 3"
proof -
  note b = div_bounds [OF assms(3), of x]
  have "k * 3 \<le> x" if "3 \<le> x div k"
    using mult_left_mono [OF that, of k] assms(3) b(1) by linarith
  then show "0 \<le> x - k * min 3 (x div k)" "x - k * min 3 (x div k) \<le> k"
    using assms b by (auto simp: min_def)
  show "0 \<le> min 3 (x div k)" "min 3 (x div k) \<le> 3"
    using assms by (simp_all add: pos_imp_zdiv_nonneg_iff)
qed

lemma civil_of_day_valid:
  "1 \<le> civil_month (civil_of_day n) \<and> civil_month (civil_of_day n) \<le> 12"
  "1 \<le> civil_day (civil_of_day n) \<and> civil_day (civil_of_day n) \<le> 31"
proof -
  define doe where "doe = (n + 719468) mod 146097"
  define r1 where "r1 = doe - 36524 * min 3 (doe div 36524)"
  define r2 where "r2 = r1 - 1461 * (r1 div 1461)"
  define doy where "doy = r2 - 365 * min 3 (r2 div 365)"
  have "0 \<le> doe" "doe \<le> 4 * 36524"
    using pos_mod_bound [of 146097 "n + 719468"] by (simp_all add: doe_def)
  then have "0 \<le> r1" "r1 \<le> 36524" using cycle_bounds [of doe 36524] by (simp_all add: r1_def)
  have "0 \<le> r2" "r2 \<le> 4 * 365"
    using div_bounds [of 1461 r1] by (simp_all add: r2_def)
  then have doy: "0 \<le> doy" "doy \<le> 365"
    using cycle_bounds [of r2 365] by (simp_all add: doy_def)
  note m = march_month_range [OF doy]
  show "1 \<le> civil_month (civil_of_day n) \<and> civil_month (civil_of_day n) \<le> 12"
    using m(1,2) unfolding civil_of_day_def Let_def
    by (simp flip: doe_def r1_def r2_def doy_def)
  show "1 \<le> civil_day (civil_of_day n) \<and> civil_day (civil_of_day n) \<le> 31"
    using m(3,4) unfolding civil_of_day_def Let_def
    by (simp flip: doe_def r1_def r2_def doy_def)
qed

lemma march_year_parts:
  fixes era c q a :: int
  assumes "0 \<le> c" "c \<le> 3" "0 \<le> q" "q \<le> 24" "0 \<le> a" "a \<le> 3"
  shows "(400 * era + 100 * c + 4 * q + a) div 4 = 100 * era + 25 * c + q"
    "(400 * era + 100 * c + 4 * q + a) div 100 = 4 * era + c"
    "(400 * era + 100 * c + 4 * q + a) div 400 = era"
proof -
  have "400 * era + 100 * c + 4 * q + a = 4 * (100 * era + 25 * c + q) + a"
    "400 * era + 100 * c + 4 * q + a = 100 * (4 * era + c) + (4 * q + a)"
    "400 * era + 100 * c + 4 * q + a = 400 * era + (100 * c + 4 * q + a)"
    by simp_all
  moreover have "a div 4 = 0" "(4 * q + a) div 100 = 0" "(100 * c + 4 * q + a) div 400 = 0"
    using assms by (simp_all add: div_pos_pos_trivial)
  ultimately show "(400 * era + 100 * c + 4 * q + a) div 4 = 100 * era + 25 * c + q"
    "(400 * era + 100 * c + 4 * q + a) div 100 = 4 * era + c"
    "(400 * era + 100 * c + 4 * q + a) div 400 = era"
    by (metis add_0_right add_diff_cancel_right' div_mult_self4 mult.commute zero_neq_numeral)+
qed

lemma day_of_civil_of_day: "day_of_civil (civil_of_day n) = n"
proof -
  define era where "era = (n + 719468) div 146097"
  define doe where "doe = (n + 719468) mod 146097"
  define c where "c = min 3 (doe div 36524)"
  define r1 where "r1 = doe - 36524 * c"
  define q where "q = r1 div 1461"
  define r2 where "r2 = r1 - 1461 * q"
  define a where "a = min 3 (r2 div 365)"
  define doy where "doy = r2 - 365 * a"
  define mp where "mp = (5 * doy + 2) div 153"
  have n: "n = 146097 * era + doe - 719468"
    using mult_div_mod_eq [of 146097 "n + 719468"] by (simp add: era_def doe_def)
  have "0 \<le> doe" "doe \<le> 4 * 36524"
    using pos_mod_bound [of 146097 "n + 719468"] by (simp_all add: doe_def)
  then have r1: "0 \<le> r1" "r1 \<le> 36524" and c: "0 \<le> c" "c \<le> 3"
    using cycle_bounds [of doe 36524] by (simp_all add: r1_def c_def)
  have r2: "0 \<le> r2" "r2 \<le> 4 * 365" and q: "0 \<le> q" "q \<le> 24"
    using div_bounds [of 1461 r1] r1 by (simp_all add: r2_def q_def)
  then have doy: "0 \<le> doy" "doy \<le> 365" and a: "0 \<le> a" "a \<le> 3"
    using cycle_bounds [of r2 365] by (simp_all add: doy_def a_def)
  note mp = march_month_range(1,2) [OF doy, folded mp_def]
  note y = march_year_parts [OF c q a, of era]
  have "civil_of_day n =
      (let y = 400 * era + 100 * c + 4 * q + a; m = (if mp < 10 then mp + 3 else mp - 9)
       in \<lparr>civil_year = (if m \<le> 2 then y + 1 else y), civil_month = m,
           civil_day = doy - (153 * mp + 2) div 5 + 1\<rparr>)"
    unfolding civil_of_day_def Let_def mp_def doy_def a_def r2_def q_def r1_def c_def doe_def era_def
    by (rule refl)
  then show ?thesis
    using mp y n by (simp add: day_of_civil_def Let_def doy_def r2_def r1_def)
qed

lemma civil_of_day_inj: "civil_of_day m = civil_of_day n \<Longrightarrow> m = n"
  by (metis day_of_civil_of_day)

end
