(* ===== verification/Workflow.thy ===== *)
theory Workflow
  imports Complex_Main Domain Go_Time
begin

text \<open>
  \<open>internal/workflow\<close>: the rules that map an event to a target state (\<open>rules.go\<close>), the
  due dates of the In Progress transition (\<open>duedate.go\<close>) and the table of Jira
  transition ids (\<open>transition.go\<close>).
\<close>

section \<open>rules.go\<close>

record RuleConfig =
  DevelopBranch :: go_string
  MasterBranch :: go_string

text \<open>\<open>None\<close> is the result \<^verbatim>\<open>("", false)\<close>: the event is skipped.\<close>

definition classifyPush :: "NormalizedEvent \<Rightarrow> RuleConfig \<Rightarrow> WorkflowState option" where
  "classifyPush event cfg =
     (if SourceBranch event = DevelopBranch cfg then Some StateRFQA
      else if SourceBranch event = MasterBranch cfg then Some StateDone
      else Some StateInProgress)"

definition classifyMerge :: "NormalizedEvent \<Rightarrow> RuleConfig \<Rightarrow> WorkflowState option" where
  "classifyMerge event cfg =
     (if TargetBranch event = DevelopBranch cfg then Some StateRFQA
      else if TargetBranch event = MasterBranch cfg then None
      else None)"

definition Classify :: "NormalizedEvent \<Rightarrow> RuleConfig \<Rightarrow> WorkflowState option" where
  "Classify event cfg =
     (case ev_Type event of
        EventPush \<Rightarrow> classifyPush event cfg
      | EventMROpened \<Rightarrow> Some StateCodeReview
      | EventMRMerged \<Rightarrow> classifyMerge event cfg
      | EventMRDraft \<Rightarrow> None
      | EventUnrecognized \<Rightarrow> None
      | _ \<Rightarrow> None)"

section \<open>transition.go\<close>

record Resolver =
  transitions :: "go_string \<rightharpoonup> go_string"

definition NewResolver :: "(go_string \<rightharpoonup> go_string) \<Rightarrow> Resolver" where
  "NewResolver t = \<lparr>transitions = t\<rparr>"

definition ResolveTransitionID :: "Resolver \<Rightarrow> WorkflowState \<Rightarrow> go_string result" where
  "ResolveTransitionID r state =
     (case transitions r (WorkflowState_str state) of
        None \<Rightarrow> Inl (Errorf (''no jira transition configured for state '' @
                           quote (WorkflowState_str state)))
      | Some i \<Rightarrow>
          if i = '''' then Inl (Errorf (''no jira transition configured for state '' @
                           quote (WorkflowState_str state)))
          else Inr i)"

lemma ResolveTransitionID_Inr [simp]:
  "ResolveTransitionID r state = Inr i \<longleftrightarrow>
    transitions r (WorkflowState_str state) = Some i \<and> i \<noteq> ''''"
  by (auto simp: ResolveTransitionID_def split: option.splits)

section \<open>duedate.go\<close>

definition StrategySprintEnd :: go_string where "StrategySprintEnd = ''sprint_end''"
definition StrategyStoryPoints :: go_string where "StrategyStoryPoints = ''story_points''"

definition NextWeekday :: "go_time \<Rightarrow> weekday \<Rightarrow> go_time" where
  "NextWeekday from_time weekday =
     (let t = Truncate_day from_time;
          daysUntil = weekday_num weekday - weekday_num (Weekday t);
          daysUntil' = (if daysUntil < 0 then daysUntil + 7 else daysUntil)
      in AddDate_days t daysUntil')"

text \<open>
  \<open>strings.TrimSpace\<close>: the Unicode white space runes in UTF-8, at either end.
  \<open>strings.ToLower\<close> is exact on what it is compared with here: U+0130 and U+212A are
  the only runes outside ASCII with an ASCII lower case.
\<close>

definition space_runes :: "go_string list" where
  "space_runes =
     map (\<lambda>n. [byte n]) [9, 10, 11, 12, 13, 32] @
     [[byte 194, byte 133], [byte 194, byte 160], [byte 225, byte 154, byte 128]] @
     map (\<lambda>n. [byte 226, byte 128, byte n])
       [128, 129, 130, 131, 132, 133, 134, 135, 136, 137, 138, 168, 169, 175] @
     [[byte 226, byte 129, byte 159], [byte 227, byte 128, byte 128]]"

fun trim_left :: "nat \<Rightarrow> go_string list \<Rightarrow> go_string \<Rightarrow> go_string" where
  "trim_left 0 runes s = s"
| "trim_left (Suc n) runes s =
     (case List.find (HasPrefix s) runes of
        None \<Rightarrow> s
      | Some r \<Rightarrow> trim_left n runes (drop (length r) s))"

definition TrimSpace :: "go_string \<Rightarrow> go_string" where
  "TrimSpace s =
     (let t = trim_left (length s) space_runes s
      in rev (trim_left (length t) (map rev space_runes) (rev t)))"

fun ToLower :: "go_string \<Rightarrow> go_string" where
  "ToLower [] = []"
| "ToLower (c # s) =
     (if char_code c = 196 \<and> HasPrefix s [byte 176] then CHR ''i'' # ToLower (drop 1 s)
      else if char_code c = 226 \<and> HasPrefix s [byte 132, byte 170]
      then CHR ''k'' # ToLower (drop 2 s)
      else lower_char c # ToLower s)"

definition ParseWeekday :: "go_string \<Rightarrow> weekday result" where
  "ParseWeekday s =
     (let t = ToLower (TrimSpace s) in
      if t = ''sunday'' then Inr Sunday
      else if t = ''monday'' then Inr Monday
      else if t = ''tuesday'' then Inr Tuesday
      else if t = ''wednesday'' then Inr Wednesday
      else if t = ''thursday'' then Inr Thursday
      else if t = ''friday'' then Inr Friday
      else if t = ''saturday'' then Inr Saturday
      else Inl (Errorf (''unknown weekday: '' @ quote s)))"

text \<open>
  A finite \<open>float64\<close> is a rational number. Its conversion to \<open>int\<close> drops the
  fraction; outside the range of the target the value is the smallest integer, as on
  amd64.
\<close>

definition int_of_float :: "rat \<Rightarrow> int" where
  "int_of_float x =
     (let n = (if 0 \<le> x then \<lfloor>x\<rfloor> else \<lceil>x\<rceil>)
      in if int64_ok n then n else int64_min)"

definition CalculateDueDate ::
    "go_string \<Rightarrow> go_string \<Rightarrow> rat \<Rightarrow> go_time \<Rightarrow> go_time result" where
  "CalculateDueDate strategy sprintEndWeekday storyPoints now =
     (if strategy = StrategySprintEnd then
        (case ParseWeekday sprintEndWeekday of
           Inl e \<Rightarrow> Inl e
         | Inr wd \<Rightarrow> Inr (NextWeekday now wd))
      else if strategy = StrategyStoryPoints then
        (let days = int_of_float storyPoints;
             days' = (if days < 1 then 1 else days)
         in Inr (AddDate_days now days'))
      else Inl (Errorf (''unknown due_date_strategy: '' @ quote strategy)))"

section \<open>Facts\<close>

lemma NextWeekday_truncated:
  "Weekday (NextWeekday t w) = w"
  "local_day (Truncate_day t) \<le> local_day (NextWeekday t w)"
  "local_day (NextWeekday t w) \<le> local_day (Truncate_day t) + 6"
proof -
  let ?u = "Truncate_day t"
  define a where "a = weekday_num w"
  define b where "b = local_day ?u + 4"
  define d where "d = (if a - b mod 7 < 0 then a - b mod 7 + 7 else a - b mod 7)"
  have a: "0 \<le> a" "a \<le> 6" using weekday_num_range by (simp_all add: a_def)
  have eq: "NextWeekday t w = AddDate_days ?u d"
    by (simp add: NextWeekday_def Let_def weekday_num_Weekday a_def b_def d_def)
  have r: "0 \<le> b mod 7" "b mod 7 < 7" by simp_all
  then have d: "0 \<le> d" "d \<le> 6" and "b mod 7 + d = a \<or> b mod 7 + d = a + 7"
    using a by (auto simp: d_def)
  then have "(b mod 7 + d) mod 7 = a" using a by auto
  then have d7: "(b + d) mod 7 = a" by (simp add: mod_add_left_eq)
  have "weekday_num (Weekday (NextWeekday t w)) = weekday_num w"
    using d7 by (simp add: eq weekday_num_Weekday b_def a_def algebra_simps)
  then show "Weekday (NextWeekday t w) = w" by simp
  show "local_day ?u \<le> local_day (NextWeekday t w)"
    "local_day (NextWeekday t w) \<le> local_day ?u + 6"
    using d by (simp_all add: eq)
qed

lemma trim_left_none: "List.find (HasPrefix s) runes = None \<Longrightarrow> trim_left n runes s = s"
  by (cases n) simp_all

section \<open>Properties\<close>




text \<open>
  West of UTC the due date can lie before the start date: on Tuesday 2026-04-07 at ten in
  the morning, five hours behind UTC, the next Monday is given as the day before.
\<close>

lemma due_date_before_start:
  "let t = \<lparr>unix_nanos = 20550 * nanos_per_day + 15 * nanos_per_hour, zone_offset = - 18000\<rparr> in
   \<exists>d. CalculateDueDate ''sprint_end'' ''monday'' 1 t = Inr d \<and>
     Format_date t = ''2026-04-07'' \<and> Format_date d = ''2026-04-06''"
proof -
  let ?t = "\<lparr>unix_nanos = 20550 * nanos_per_day + 15 * nanos_per_hour, zone_offset = - 18000\<rparr>"
  have "ParseWeekday ''monday'' = Inr Monday" by code_simp
  then have "CalculateDueDate ''sprint_end'' ''monday'' 1 ?t = Inr (NextWeekday ?t Monday)"
    by (simp add: CalculateDueDate_def StrategySprintEnd_def)
  moreover have "Format_date ?t = ''2026-04-07''" "Format_date (NextWeekday ?t Monday) = ''2026-04-06''"
    by code_simp+
  ultimately show ?thesis by simp
qed

text \<open>
  The story-point strategy gives as many days as whole points, and at least one day, in
  any zone.
\<close>

lemma story_point_days:
  assumes "0 \<le> sp" "sp < 9000000000000000000"
  shows "\<exists>d. CalculateDueDate StrategyStoryPoints wd sp t = Inr d \<and>
    local_day d = local_day t + max 1 \<lfloor>sp\<rfloor>"
proof -
  have f: "0 \<le> \<lfloor>sp\<rfloor>" "\<lfloor>sp\<rfloor> \<le> 9000000000000000000"
    using assms by (simp_all add: floor_le_iff)
  then have "int_of_float sp = \<lfloor>sp\<rfloor>"
    using assms by (simp add: int_of_float_def int64_ok_def int64_min_def int64_max_def Let_def)
  then show ?thesis
    by (simp add: CalculateDueDate_def StrategyStoryPoints_def StrategySprintEnd_def Let_def)
qed

definition weekday_name :: "weekday \<Rightarrow> go_string" where
  "weekday_name w =
     [''sunday'', ''monday'', ''tuesday'', ''wednesday'', ''thursday'', ''friday'', ''saturday'']
       ! nat (weekday_num w)"

text \<open>
  A weekday is recognized exactly by its English name, in any letter case and with white
  space around it; anything else is an error that quotes the input.
\<close>

lemma weekday_names:
  "(ParseWeekday s = Inr w \<longleftrightarrow> ToLower (TrimSpace s) = weekday_name w) \<and>
   (ParseWeekday s = Inl e \<longleftrightarrow> e = Errorf (''unknown weekday: '' @ quote s) \<and>
      ToLower (TrimSpace s) \<notin> range weekday_name)"
proof -
  define t where "t = ToLower (TrimSpace s)"
  have range: "range weekday_name =
      {''sunday'', ''monday'', ''tuesday'', ''wednesday'', ''thursday'', ''friday'', ''saturday''}"
  proof -
    have "(UNIV :: weekday set) = {Sunday, Monday, Tuesday, Wednesday, Thursday, Friday, Saturday}"
      using weekday.exhaust by blast
    from arg_cong [OF this, of "image weekday_name"] show ?thesis by (simp add: weekday_name_def)
  qed
  have "ParseWeekday s =
      (case List.find (\<lambda>w. weekday_name w = t)
         [Sunday, Monday, Tuesday, Wednesday, Thursday, Friday, Saturday] of
         Some w \<Rightarrow> Inr w | None \<Rightarrow> Inl (Errorf (''unknown weekday: '' @ quote s)))"
    by (auto simp: ParseWeekday_def t_def Let_def weekday_name_def)
  then show ?thesis
    unfolding range t_def [symmetric]
    by (cases w) (auto simp: weekday_name_def split: if_splits)
qed

end
