(* ===== verification/Config.thy ===== *)
theory Config
  imports Domain Go_Time
begin

text \<open>
  \<open>internal/config/config.go\<close>: the configuration record, its defaults, the environment
  overrides, loading, validation, and the duration strings of the YAML file.

  The YAML decoder is a third-party package: \<open>Load\<close> takes it as an argument, a function
  from the file's bytes and the defaults to an error or the configuration. The file
  system and the environment are arguments as well (an unset variable reads as the empty
  string, as with \<open>os.Getenv\<close>).
\<close>

record ServerConfig =
  Port :: int
  ReadTimeout :: duration
  WriteTimeout :: duration
  ShutdownTimeout :: duration
  AdminToken :: go_string

record DatabaseConfig =
  URL :: go_string
  MaxConnections :: int
  MinConnections :: int

record GitLabConfig =
  WebhookSecret :: go_string
  gl_APIToken :: go_string
  gl_BaseURL :: go_string

record JiraConfig =
  ji_BaseURL :: go_string
  Username :: go_string
  ji_APIToken :: go_string
  ji_Timeout :: duration

record InProgressConfig =
  TransitionID :: go_string
  DueDateStrategy :: go_string
  SprintEndWeekday :: go_string
  StartDateField :: go_string
  DueDateField :: go_string
  StoryPointsField :: go_string

record WorkflowConfig =
  ProjectKey :: go_string
  wf_DevelopBranch :: go_string
  wf_MasterBranch :: go_string
  Transitions :: "go_string \<rightharpoonup> go_string"
  DoneEmoji :: go_string
  InProgress :: InProgressConfig

record WorkerConfig =
  wk_Concurrency :: int
  wk_PollInterval :: duration
  wk_MaxAttempts :: int

record ReconcileSection =
  rc_Enabled :: bool
  rc_Interval :: duration
  rc_StuckJobTimeout :: duration

record Config =
  Server :: ServerConfig
  Database :: DatabaseConfig
  GitLab :: GitLabConfig
  Jira :: JiraConfig
  Workflow :: WorkflowConfig
  Worker :: WorkerConfig
  Reconcile :: ReconcileSection

definition defaults :: Config where
  "defaults =
     \<lparr>Server = \<lparr>Port = 8090, ReadTimeout = 10 * nanos_per_second,
        WriteTimeout = 10 * nanos_per_second, ShutdownTimeout = 15 * nanos_per_second,
        AdminToken = ''''\<rparr>,
      Database = \<lparr>URL = '''', MaxConnections = 20, MinConnections = 2\<rparr>,
      GitLab = \<lparr>WebhookSecret = '''', gl_APIToken = '''', gl_BaseURL = ''''\<rparr>,
      Jira = \<lparr>ji_BaseURL = '''', Username = '''', ji_APIToken = '''',
        ji_Timeout = 15 * nanos_per_second\<rparr>,
      Workflow = \<lparr>ProjectKey = ''RIS'', wf_DevelopBranch = ''develop'',
        wf_MasterBranch = ''master'', Transitions = Map.empty, DoneEmoji = ''thumbsup'',
        InProgress = \<lparr>TransitionID = '''', DueDateStrategy = ''sprint_end'',
          SprintEndWeekday = ''tuesday'', StartDateField = ''customfield_10040'',
          DueDateField = ''duedate'', StoryPointsField = ''customfield_10027''\<rparr>\<rparr>,
      Worker = \<lparr>wk_Concurrency = 1, wk_PollInterval = 5 * nanos_per_second,
        wk_MaxAttempts = 5\<rparr>,
      Reconcile = \<lparr>rc_Enabled = True, rc_Interval = 15 * nanos_per_minute,
        rc_StuckJobTimeout = 5 * nanos_per_minute\<rparr>\<rparr>"

section \<open>Validation\<close>

definition Validate :: "Config \<Rightarrow> go_error option" where
  "Validate c =
     (let missing =
        (if WebhookSecret (GitLab c) = ''''
         then [''GLSYNC_GITLAB__WEBHOOK_SECRET (gitlab.webhook_secret)''] else []) @
        (if Username (Jira c) = '''' then [''GLSYNC_JIRA__USERNAME (jira.username)''] else []) @
        (if ji_APIToken (Jira c) = '''' then [''GLSYNC_JIRA__API_TOKEN (jira.api_token)''] else []) @
        (if URL (Database c) = '''' then [''GLSYNC_DATABASE__URL (database.url)''] else [])
      in if length missing > 0
         then Some (Errorf (''missing required config values: '' @ Join missing '', ''))
         else None)"

section \<open>Environment overrides and loading\<close>

type_synonym environ = "go_string \<Rightarrow> go_string"

definition override :: "environ \<Rightarrow> go_string \<Rightarrow> (go_string \<Rightarrow> Config \<Rightarrow> Config) \<Rightarrow> Config \<Rightarrow> Config" where
  "override getenv name upd cfg = (let v = getenv name in if v \<noteq> '''' then upd v cfg else cfg)"

definition set_AdminToken :: "go_string \<Rightarrow> Config \<Rightarrow> Config" where
  "set_AdminToken v c = c\<lparr>Server := (Server c)\<lparr>AdminToken := v\<rparr>\<rparr>"
definition set_WebhookSecret :: "go_string \<Rightarrow> Config \<Rightarrow> Config" where
  "set_WebhookSecret v c = c\<lparr>GitLab := (GitLab c)\<lparr>WebhookSecret := v\<rparr>\<rparr>"
definition set_gl_APIToken :: "go_string \<Rightarrow> Config \<Rightarrow> Config" where
  "set_gl_APIToken v c = c\<lparr>GitLab := (GitLab c)\<lparr>gl_APIToken := v\<rparr>\<rparr>"
definition set_gl_BaseURL :: "go_string \<Rightarrow> Config \<Rightarrow> Config" where
  "set_gl_BaseURL v c = c\<lparr>GitLab := (GitLab c)\<lparr>gl_BaseURL := v\<rparr>\<rparr>"
definition set_ji_BaseURL :: "go_string \<Rightarrow> Config \<Rightarrow> Config" where
  "set_ji_BaseURL v c = c\<lparr>Jira := (Jira c)\<lparr>ji_BaseURL := v\<rparr>\<rparr>"
definition set_Username :: "go_string \<Rightarrow> Config \<Rightarrow> Config" where
  "set_Username v c = c\<lparr>Jira := (Jira c)\<lparr>Username := v\<rparr>\<rparr>"
definition set_ji_APIToken :: "go_string \<Rightarrow> Config \<Rightarrow> Config" where
  "set_ji_APIToken v c = c\<lparr>Jira := (Jira c)\<lparr>ji_APIToken := v\<rparr>\<rparr>"
definition set_URL :: "go_string \<Rightarrow> Config \<Rightarrow> Config" where
  "set_URL v c = c\<lparr>Database := (Database c)\<lparr>URL := v\<rparr>\<rparr>"

definition applyEnv :: "environ \<Rightarrow> Config \<Rightarrow> Config" where
  "applyEnv getenv cfg0 =
     (let cfg1 = override getenv ''GLSYNC_SERVER__ADMIN_TOKEN'' set_AdminToken cfg0;
          cfg2 = override getenv ''GLSYNC_GITLAB__WEBHOOK_SECRET'' set_WebhookSecret cfg1;
          cfg3 = override getenv ''GLSYNC_GITLAB__API_TOKEN'' set_gl_APIToken cfg2;
          cfg4 = override getenv ''GLSYNC_GITLAB__BASE_URL'' set_gl_BaseURL cfg3;
          cfg5 = override getenv ''GLSYNC_JIRA__BASE_URL'' set_ji_BaseURL cfg4;
          cfg6 = override getenv ''GLSYNC_JIRA__USERNAME'' set_Username cfg5;
          cfg7 = override getenv ''GLSYNC_JIRA__API_TOKEN'' set_ji_APIToken cfg6
      in override getenv ''GLSYNC_DATABASE__URL'' set_URL cfg7)"

definition Load ::
    "(go_string \<Rightarrow> go_string result) \<Rightarrow> (go_string \<Rightarrow> Config \<Rightarrow> Config result) \<Rightarrow> environ
      \<Rightarrow> go_string \<Rightarrow> Config result" where
  "Load read_file yaml_unmarshal getenv path =
     (case read_file path of
        Inl e \<Rightarrow> Inl (Wrap (''read config file '' @ quote path) e)
      | Inr data \<Rightarrow>
          (case yaml_unmarshal data defaults of
             Inl e \<Rightarrow> Inl (Wrap (''parse config file '' @ quote path) e)
           | Inr cfg \<Rightarrow> Inr (applyEnv getenv cfg)))"

section \<open>Durations of the YAML file\<close>

text \<open>
  \<open>time.ParseDuration\<close>: an optional sign, then one or more numbers, each with an
  optional fraction and a unit; sums are kept in unsigned 64-bit arithmetic and checked
  against the range of a duration after each step. The fraction of a unit is computed
  exactly and rounded down.
\<close>

definition unit_nanos :: "go_string \<Rightarrow> nat option" where
  "unit_nanos u =
     (if u = ''ns'' then Some 1
      else if u = ''us'' \<or> u = [byte 194, byte 181] @ ''s'' \<or> u = [byte 206, byte 188] @ ''s''
      then Some 1000
      else if u = ''ms'' then Some 1000000
      else if u = ''s'' then Some 1000000000
      else if u = ''m'' then Some 60000000000
      else if u = ''h'' then Some 3600000000000
      else None)"

definition dur_limit :: nat where "dur_limit = 9223372036854775808"

definition unit_char :: "char \<Rightarrow> bool" where
  "unit_char c = (c \<noteq> CHR ''.'' \<and> \<not> is_digit c)"

text \<open>One number with its unit: the value in nanoseconds and the rest of the text.\<close>

definition duration_part :: "go_string \<Rightarrow> (nat \<times> go_string) option" where
  "duration_part s =
     (let whole = takeWhile is_digit s; s1 = dropWhile is_digit s;
          dot = (s1 \<noteq> [] \<and> hd s1 = CHR ''.'');
          frac = (if dot then takeWhile is_digit (tl s1) else []);
          s2 = (if dot then dropWhile is_digit (tl s1) else s1);
          u = takeWhile unit_char s2
      in if whole = [] \<and> frac = [] \<or> dur_limit < digits_value 0 whole then None
         else (case unit_nanos u of
           None \<Rightarrow> None
         | Some n \<Rightarrow>
             let v = digits_value 0 whole;
                 w = v * n + digits_value 0 frac * n div 10 ^ length frac
             in if dur_limit div n < v \<or> dur_limit < w then None
                else Some (w, dropWhile unit_char s2)))"

fun duration_sum :: "nat \<Rightarrow> nat \<Rightarrow> go_string \<Rightarrow> nat option" where
  "duration_sum 0 d s = (if s = [] then Some d else None)"
| "duration_sum (Suc fuel) d s =
     (if s = [] then Some d
      else case duration_part s of
        None \<Rightarrow> None
      | Some (v, r) \<Rightarrow>
          let d' = (d + v) mod 18446744073709551616
          in if dur_limit < d' then None else duration_sum fuel d' r)"

definition ParseDuration :: "go_string \<Rightarrow> duration option" where
  "ParseDuration s =
     (let neg = HasPrefix s ''-''; r = (if neg \<or> HasPrefix s ''+'' then tl s else s)
      in if r = ''0'' then Some 0
         else if r = [] then None
         else case duration_sum (length r) 0 r of
           None \<Rightarrow> None
         | Some d \<Rightarrow> if neg then Some (- int d)
                     else if d < dur_limit then Some (int d) else None)"

text \<open>The argument is the scalar's text; the old duration stays on an error.\<close>

definition UnmarshalYAML_duration :: "go_string \<Rightarrow> duration result" where
  "UnmarshalYAML_duration v =
     (case ParseDuration v of
        None \<Rightarrow> Inl (Wrap (''invalid duration '' @ quote v) (Errorf (''time: invalid duration '' @ quote v)))
      | Some d \<Rightarrow> Inr d)"

section \<open>Facts\<close>

lemmas setter_defs =
  set_AdminToken_def set_WebhookSecret_def set_gl_APIToken_def set_gl_BaseURL_def
  set_ji_BaseURL_def set_Username_def set_ji_APIToken_def set_URL_def

definition env_or :: "environ \<Rightarrow> go_string \<Rightarrow> go_string \<Rightarrow> go_string" where
  "env_or getenv name old = (if getenv name = '''' then old else getenv name)"

lemma override_AdminToken:
  "override g n set_AdminToken c =
    c\<lparr>Server := (Server c)\<lparr>AdminToken := env_or g n (AdminToken (Server c))\<rparr>\<rparr>"
  by (simp add: override_def set_AdminToken_def env_or_def)

lemma override_GitLab:
  "override g n set_WebhookSecret c =
    c\<lparr>GitLab := (GitLab c)\<lparr>WebhookSecret := env_or g n (WebhookSecret (GitLab c))\<rparr>\<rparr>"
  "override g n set_gl_APIToken c =
    c\<lparr>GitLab := (GitLab c)\<lparr>gl_APIToken := env_or g n (gl_APIToken (GitLab c))\<rparr>\<rparr>"
  "override g n set_gl_BaseURL c =
    c\<lparr>GitLab := (GitLab c)\<lparr>gl_BaseURL := env_or g n (gl_BaseURL (GitLab c))\<rparr>\<rparr>"
  by (simp_all add: override_def setter_defs env_or_def)

lemma override_Jira:
  "override g n set_ji_BaseURL c =
    c\<lparr>Jira := (Jira c)\<lparr>ji_BaseURL := env_or g n (ji_BaseURL (Jira c))\<rparr>\<rparr>"
  "override g n set_Username c =
    c\<lparr>Jira := (Jira c)\<lparr>Username := env_or g n (Username (Jira c))\<rparr>\<rparr>"
  "override g n set_ji_APIToken c =
    c\<lparr>Jira := (Jira c)\<lparr>ji_APIToken := env_or g n (ji_APIToken (Jira c))\<rparr>\<rparr>"
  by (simp_all add: override_def setter_defs env_or_def)

lemma override_URL:
  "override g n set_URL c = c\<lparr>Database := (Database c)\<lparr>URL := env_or g n (URL (Database c))\<rparr>\<rparr>"
  by (simp add: override_def set_URL_def env_or_def)

lemmas override_simps = override_AdminToken override_GitLab override_Jira override_URL

lemma applyEnv_eq:
  "applyEnv g c =
    c\<lparr>Server := (Server c)\<lparr>AdminToken := env_or g ''GLSYNC_SERVER__ADMIN_TOKEN'' (AdminToken (Server c))\<rparr>,
      Database := (Database c)\<lparr>URL := env_or g ''GLSYNC_DATABASE__URL'' (URL (Database c))\<rparr>,
      GitLab := (GitLab c)
        \<lparr>WebhookSecret := env_or g ''GLSYNC_GITLAB__WEBHOOK_SECRET'' (WebhookSecret (GitLab c)),
         gl_APIToken := env_or g ''GLSYNC_GITLAB__API_TOKEN'' (gl_APIToken (GitLab c)),
         gl_BaseURL := env_or g ''GLSYNC_GITLAB__BASE_URL'' (gl_BaseURL (GitLab c))\<rparr>,
      Jira := (Jira c)
        \<lparr>ji_BaseURL := env_or g ''GLSYNC_JIRA__BASE_URL'' (ji_BaseURL (Jira c)),
         Username := env_or g ''GLSYNC_JIRA__USERNAME'' (Username (Jira c)),
         ji_APIToken := env_or g ''GLSYNC_JIRA__API_TOKEN'' (ji_APIToken (Jira c))\<rparr>\<rparr>"
  by (simp add: applyEnv_def override_simps Let_def)

lemma Validate_None_iff:
  "Validate c = None \<longleftrightarrow>
    WebhookSecret (GitLab c) \<noteq> '''' \<and> Username (Jira c) \<noteq> '''' \<and>
    ji_APIToken (Jira c) \<noteq> '''' \<and> URL (Database c) \<noteq> ''''"
  by (simp add: Validate_def Let_def)

section \<open>Properties\<close>

definition missing_names :: "Config \<Rightarrow> go_string list" where
  "missing_names c =
     map snd (filter (\<lambda>(v, n). v = '''')
       [(WebhookSecret (GitLab c), ''GLSYNC_GITLAB__WEBHOOK_SECRET (gitlab.webhook_secret)''),
        (Username (Jira c), ''GLSYNC_JIRA__USERNAME (jira.username)''),
        (ji_APIToken (Jira c), ''GLSYNC_JIRA__API_TOKEN (jira.api_token)''),
        (URL (Database c), ''GLSYNC_DATABASE__URL (database.url)'')])"

text \<open>
  A configuration is valid exactly when the four secrets are set, and the error of an
  invalid one is the list of those that are missing.
\<close>

lemma validation_exact:
  "(Validate c = None \<longleftrightarrow>
     WebhookSecret (GitLab c) \<noteq> '''' \<and> Username (Jira c) \<noteq> '''' \<and>
     ji_APIToken (Jira c) \<noteq> '''' \<and> URL (Database c) \<noteq> '''') \<and>
   (Validate c = Some e \<longleftrightarrow> missing_names c \<noteq> [] \<and>
     e = Errorf (''missing required config values: '' @ Join (missing_names c) '', ''))"
  by (auto simp: Validate_def missing_names_def Let_def)

text \<open>
  A loaded configuration is the file decoded over the defaults, with each of the eight
  secret settings replaced by its environment variable where that is set and not empty;
  every other setting is the file's.
\<close>

lemma environment_overrides_file:
  assumes "read_file path = Inr data" "yaml_unmarshal data defaults = Inr c"
  shows "\<exists>c'. Load read_file yaml_unmarshal g path = Inr c' \<and>
    Server c' = (Server c)\<lparr>AdminToken := env_or g ''GLSYNC_SERVER__ADMIN_TOKEN'' (AdminToken (Server c))\<rparr> \<and>
    Database c' = (Database c)\<lparr>URL := env_or g ''GLSYNC_DATABASE__URL'' (URL (Database c))\<rparr> \<and>
    GitLab c' = \<lparr>WebhookSecret = env_or g ''GLSYNC_GITLAB__WEBHOOK_SECRET'' (WebhookSecret (GitLab c)),
      gl_APIToken = env_or g ''GLSYNC_GITLAB__API_TOKEN'' (gl_APIToken (GitLab c)),
      gl_BaseURL = env_or g ''GLSYNC_GITLAB__BASE_URL'' (gl_BaseURL (GitLab c))\<rparr> \<and>
    Jira c' = \<lparr>ji_BaseURL = env_or g ''GLSYNC_JIRA__BASE_URL'' (ji_BaseURL (Jira c)),
      Username = env_or g ''GLSYNC_JIRA__USERNAME'' (Username (Jira c)),
      ji_APIToken = env_or g ''GLSYNC_JIRA__API_TOKEN'' (ji_APIToken (Jira c)),
      ji_Timeout = ji_Timeout (Jira c)\<rparr> \<and>
    Workflow c' = Workflow c \<and> Worker c' = Worker c \<and> Reconcile c' = Reconcile c"
  using assms by (simp add: Load_def applyEnv_eq)

lemma digit_run:
  assumes "u \<noteq> []" "\<not> is_digit (hd u)"
  shows "takeWhile is_digit (show_nat n @ u) = show_nat n" "dropWhile is_digit (show_nat n @ u) = u"
proof -
  have "\<forall>c \<in> set (show_nat n). is_digit c"
    using show_nat_digits [of n] by (simp add: list_all_iff)
  then show "takeWhile is_digit (show_nat n @ u) = show_nat n" "dropWhile is_digit (show_nat n @ u) = u"
    using assms by (cases u; simp add: takeWhile_append2 dropWhile_append2)+
qed

lemma duration_part_unit:
  assumes u: "u \<noteq> []" "list_all unit_char u" "unit_nanos u = Some k" "0 < k"
    and "n * k < dur_limit"
  shows "duration_part (show_nat n @ u) = Some (n * k, [])"
proof -
  have hd: "\<not> is_digit (hd u)" "hd u \<noteq> CHR ''.''"
    using u(1,2) by (cases u; simp add: unit_char_def)+
  have tw: "takeWhile unit_char u = u" "dropWhile unit_char u = []"
    using u(2) by (simp_all add: takeWhile_eq_all_conv dropWhile_eq_Nil_conv list_all_iff)
  have "n \<le> n * k" using u(4) by simp
  then have "n < dur_limit" using assms(5) by (rule le_less_trans)
  moreover have "n \<le> dur_limit div k"
    using assms(5) u(4) by (simp add: less_eq_div_iff_mult_less_eq)
  moreover have "show_nat n \<noteq> []" using show_nat_digits by simp
  ultimately show ?thesis
    using assms(3,5) hd by (simp add: duration_part_def Let_def digit_run [OF u(1) hd(1)] tw)
qed

text \<open>
  C34. A duration written as a decimal number of milliseconds, seconds, minutes or hours is
  read back as that many of them, as long as it fits into 64 bits.
\<close>

theorem duration_roundtrip:
  assumes "(u, k) \<in> {(''ms'', 1000000), (''s'', 1000000000), (''m'', 60000000000), (''h'', 3600000000000)}"
    and "n * k < dur_limit"
  shows "UnmarshalYAML_duration (show_nat n @ u) = Inr (int (n * k))"
proof -
  have u: "u \<noteq> []" "list_all unit_char u" "unit_nanos u = Some k" "0 < k" "\<not> is_digit (hd u)"
    "length u \<le> 2"
    using assms(1) by (auto simp: unit_char_def is_digit_def unit_nanos_def)
  have "\<not> HasPrefix (show_nat n @ u) ''-''" "\<not> HasPrefix (show_nat n @ u) ''+''"
    using show_nat_digits [of n] by (cases "show_nat n"; auto simp: HasPrefix_def is_digit_def)+
  moreover have "show_nat n @ u \<noteq> ''0''" "show_nat n @ u \<noteq> []"
    using show_nat_digits [of n] u(1) by (auto simp: append_eq_Cons_conv)
  moreover have "duration_sum (length (show_nat n @ u)) 0 (show_nat n @ u) = Some (n * k)"
  proof -
    obtain m where m: "length (show_nat n @ u) = Suc m" using u(1) by (cases u) auto
    have "(n * k) mod 18446744073709551616 = n * k"
      using assms(2) by (simp add: dur_limit_def)
    moreover have "duration_sum m (n * k) [] = Some (n * k)" by (cases m) simp_all
    ultimately show ?thesis
      using assms(2) u(1) unfolding m
      by (simp add: duration_part_unit [OF u(1-4) assms(2)] Let_def)
  qed
  ultimately show ?thesis
    using assms(2) by (simp add: UnmarshalYAML_duration_def ParseDuration_def Let_def)
qed

theorem duration_roundtrip_witness:
  "UnmarshalYAML_duration (show_nat 5 @ ''m'') = Inr 300000000000"
  using duration_roundtrip [of "''m''" 60000000000 5] by (simp add: dur_limit_def)

end
