(* ===== verification/Go_Json_Encode.thy ===== *)
theory Go_Json_Encode
  imports Go_Json "HOL-Library.List_Lexorder"
begin

text \<open>
  The encoding half of \<open>encoding/json\<close>, as far as the program uses it: documents of
  strings, integers, booleans and null in slices and in maps with string keys, which are
  written in the order of their keys. Strings are escaped for HTML, bytes that are not UTF-8
  become the replacement character and the two Unicode line separators are escaped.

  What is written is read back by the decoder as the same document, up to the replaced bytes.
\<close>

section \<open>Strings\<close>

definition hex_escape :: "nat \<Rightarrow> go_string" where
  "hex_escape n =
     [CHR 0x5C, CHR ''u'', CHR ''0'', CHR ''0'', hex_digit (n div 16), hex_digit (n mod 16)]"

definition html_special :: "char \<Rightarrow> bool" where
  "html_special c = (c = CHR ''<'' \<or> c = CHR ''>'' \<or> c = CHR ''&'')"

text \<open>A byte below 128.\<close>

definition enc_ascii :: "char \<Rightarrow> go_string" where
  "enc_ascii c =
     (let n = char_code c in
      if c = CHR 0x22 \<or> c = CHR 0x5C then [CHR 0x5C, c]
      else if n = 8 then [CHR 0x5C, CHR ''b''] else if n = 12 then [CHR 0x5C, CHR ''f'']
      else if n = 10 then [CHR 0x5C, CHR ''n''] else if n = 13 then [CHR 0x5C, CHR ''r'']
      else if n = 9 then [CHR 0x5C, CHR ''t'']
      else if n < 32 \<or> html_special c then hex_escape n
      else [c])"

definition line_separator :: go_string where
  "line_separator = [byte 226, byte 128, byte 168]"

definition paragraph_separator :: go_string where
  "paragraph_separator = [byte 226, byte 128, byte 169]"

definition enc_rune :: "go_string \<Rightarrow> go_string" where
  "enc_rune u =
     (if u = line_separator then [CHR 0x5C] @ ''u2028''
      else if u = paragraph_separator then [CHR 0x5C] @ ''u2029''
      else u)"

function enc_chars :: "go_string \<Rightarrow> go_string" where
  "enc_chars [] = []"
| "enc_chars (c # s) =
     (if char_code c < 128 then enc_ascii c @ enc_chars s
      else if rune_len (c # s) = 0 then [CHR 0x5C] @ ''ufffd'' @ enc_chars s
      else enc_rune (take (rune_len (c # s)) (c # s)) @ enc_chars (drop (rune_len (c # s) - 1) s))"
  by pat_completeness auto
termination
  by (relation "measure length") (auto simp: less_Suc_eq_le)

definition enc_string :: "go_string \<Rightarrow> go_string" where
  "enc_string s = [CHR 0x22] @ enc_chars s @ [CHR 0x22]"

text \<open>What a string is read back as: every invalid byte is the replacement character.\<close>

function utf8_fix :: "go_string \<Rightarrow> go_string" where
  "utf8_fix [] = []"
| "utf8_fix (c # s) =
     (if rune_len (c # s) = 0 then replacement @ utf8_fix s
      else take (rune_len (c # s)) (c # s) @ utf8_fix (drop (rune_len (c # s) - 1) s))"
  by pat_completeness auto
termination
  by (relation "measure length") (auto simp: less_Suc_eq_le)

lemma utf8_fix_valid: "utf8_ok s \<Longrightarrow> utf8_fix s = s"
proof (induction s rule: utf8_ok.induct)
  case (2 c s)
  then have "rune_len (c # s) \<noteq> 0" by simp
  with 2 show ?case
    by (cases "rune_len (c # s)") (auto simp del: append_take_drop_id simp: append_take_drop_id [of _ s])
qed simp

section \<open>Reading an encoded string\<close>

lemma hex_value_digit: "n < 16 \<Longrightarrow> hex_value (hex_digit n) = Some n"
  by (auto simp: hex_value_def hex_digit_def byte_def is_digit_def Let_def)

lemma byte_char_code [simp]: "byte (char_code c) = c"
  by (simp add: byte_def)

lemma ascii_rune_len [simp]: "char_code c < 128 \<Longrightarrow> rune_len (c # s) = 1"
  by (rule rune_len_by_lead(1)) simp_all

lemma unescape_hex:
  assumes "n < 128"
  shows "unescape (tl (hex_escape n) @ t) = Some ([byte n], 5)"
proof -
  have "hex_value CHR ''0'' = Some 0" by code_simp
  then have "hex4 (tl (tl (hex_escape n)) @ t) = Some n"
    using assms by (simp add: hex_escape_def hex_value_digit)
  with assms show ?thesis
    by (simp add: unescape_def hex_escape_def encode_rune_def)
qed

lemma p_str_ascii:
  assumes "char_code c < 128"
  shows "p_str (enc_ascii c @ t) = map_option (\<lambda>(y, r). (c # y, r)) (p_str t)"
proof -
  consider "c = CHR 0x22 \<or> c = CHR 0x5C"
    | "char_code c \<in> {8, 9, 10, 12, 13}"
    | "\<not> (c = CHR 0x22 \<or> c = CHR 0x5C)" "char_code c \<notin> {8, 9, 10, 12, 13}"
      "char_code c < 32 \<or> html_special c"
    | "\<not> (c = CHR 0x22 \<or> c = CHR 0x5C)" "\<not> char_code c < 32" "\<not> html_special c"
      "char_code c \<notin> {8, 9, 10, 12, 13}" by blast
  then show ?thesis
  proof cases
    case 1
    then show ?thesis by (auto simp: enc_ascii_def unescape_def)
  next
    case 2
    then have "c = byte 8 \<or> c = byte 9 \<or> c = byte 10 \<or> c = byte 12 \<or> c = byte 13"
      by (metis byte_char_code insert_iff empty_iff)
    then show ?thesis
      by (elim disjE; hypsubst) (simp_all add: enc_ascii_def unescape_def byte_def)
  next
    case 3
    then have "enc_ascii c = hex_escape (char_code c)" by (auto simp: enc_ascii_def Let_def)
    moreover have "hex_escape n = CHR 0x5C # tl (hex_escape n)" for n by (simp add: hex_escape_def)
    ultimately show ?thesis
      using unescape_hex [OF assms, of t] assms
      by (simp add: hex_escape_def)
  next
    case 4
    then show ?thesis using assms by (auto simp: enc_ascii_def Let_def)
  qed
qed

text \<open>A character of more than one byte is read as it stands, an escaped one as its bytes.\<close>

lemma wide_head:
  assumes "\<not> char_code c < 128"
  shows "c \<noteq> CHR 0x22" "c \<noteq> CHR 0x5C" "\<not> char_code c < 32"
  using assms by auto

lemma is_cont_in_take: "is_cont_in lo hi (take n s) i \<longleftrightarrow> i < n \<and> is_cont_in lo hi s i"
  by (auto simp: is_cont_in_def)

lemma rune_len_take:
  assumes "rune_len s \<noteq> 0"
  shows "rune_len (take (rune_len s) s) = rune_len s"
proof -
  define c where "c = char_code (hd s)"
  have s: "s \<noteq> []" "char_code (hd s) = c" using assms by (auto simp: rune_len_def c_def split: if_splits)
  consider "c < 128" | "194 \<le> c" "c \<le> 223" | "c = 224" | "225 \<le> c" "c \<le> 236" | "c = 237"
    | "238 \<le> c" "c \<le> 239" | "c = 240" | "241 \<le> c" "c \<le> 243" | "c = 244"
    | "128 \<le> c" "c < 194" | "244 < c" by linarith
  then show ?thesis
    using assms
    by cases (simp_all add: rune_len_by_lead [of "take m s" c for m] rune_len_by_lead [OF s] s
        hd_take is_cont_in_take split: if_splits)
qed

lemma p_str_rune:
  assumes "\<not> char_code c < 128" "rune_len (c # s) = Suc n"
  shows "p_str (take (Suc n) (c # s) @ t) = map_option (\<lambda>(y, r). (take (Suc n) (c # s) @ y, r)) (p_str t)"
proof -
  have r: "rune_len (take (Suc n) (c # s) @ t) = Suc n"
    using rune_len_append [of "take (Suc n) (c # s)" t] rune_len_take [of "c # s"] assms(2) by simp
  have l: "length (take n s) = n" using rune_len_le [of "c # s"] assms(2) by simp
  show ?thesis
    using r wide_head [OF assms(1)] l by simp
qed

lemma p_str_separators:
  "p_str ([CHR 0x5C] @ ''u2028'' @ t) = map_option (\<lambda>(y, r). (line_separator @ y, r)) (p_str t)"
  "p_str ([CHR 0x5C] @ ''u2029'' @ t) = map_option (\<lambda>(y, r). (paragraph_separator @ y, r)) (p_str t)"
  "p_str ([CHR 0x5C] @ ''ufffd'' @ t) = map_option (\<lambda>(y, r). (replacement @ y, r)) (p_str t)"
proof -
  have "hex_value CHR ''2'' = Some 2" "hex_value CHR ''0'' = Some 0" "hex_value CHR ''8'' = Some 8"
    "hex_value CHR ''9'' = Some 9" "hex_value CHR ''f'' = Some 15" "hex_value CHR ''d'' = Some 13"
    by code_simp+
  then show
    "p_str ([CHR 0x5C] @ ''u2028'' @ t) = map_option (\<lambda>(y, r). (line_separator @ y, r)) (p_str t)"
    "p_str ([CHR 0x5C] @ ''u2029'' @ t) = map_option (\<lambda>(y, r). (paragraph_separator @ y, r)) (p_str t)"
    "p_str ([CHR 0x5C] @ ''ufffd'' @ t) = map_option (\<lambda>(y, r). (replacement @ y, r)) (p_str t)"
    by (simp_all add: unescape_def encode_rune_def line_separator_def paragraph_separator_def
        replacement_def)
qed

lemma p_str_enc_rune:
  assumes "p_str (u @ t) = map_option (\<lambda>(y, r). (u @ y, r)) (p_str t)"
  shows "p_str (enc_rune u @ t) = map_option (\<lambda>(y, r). (u @ y, r)) (p_str t)"
  unfolding enc_rune_def append_assoc if_distrib [of "\<lambda>v. p_str (v @ t)"]
  using assms p_str_separators(1,2) by presburger

lemma p_str_enc_chars: "p_str (enc_chars s @ CHR 0x22 # rest) = Some (utf8_fix s, rest)"
proof (induction s rule: enc_chars.induct)
  case (2 c s)
  consider "char_code c < 128" | "\<not> char_code c < 128" "rune_len (c # s) = 0"
    | n where "\<not> char_code c < 128" "rune_len (c # s) = Suc n" by (meson not0_implies_Suc)
  then show ?case
  proof cases
    case 1
    then show ?thesis using 2(1) p_str_ascii [of c "enc_chars s @ CHR 0x22 # rest"] by simp
  next
    case 2
    with "2.IH"(2) show ?thesis
      using p_str_separators(3) [of "enc_chars s @ CHR 0x22 # rest"] by simp
  next
    case 3
    let ?u = "take (Suc n) (c # s)" and ?t = "enc_chars (drop n s) @ CHR 0x22 # rest"
    have "p_str (enc_rune ?u @ ?t) = map_option (\<lambda>(y, r). (?u @ y, r)) (p_str ?t)"
      by (rule p_str_enc_rune [OF p_str_rune [OF 3]])
    moreover have "p_str ?t = Some (utf8_fix (drop n s), rest)" using "2.IH"(3) 3 by simp
    ultimately show ?thesis using 3 by simp
  qed
qed simp

section \<open>Documents\<close>

text \<open>A map with string keys, as the source lists its members, and an integer.\<close>

type_synonym go_map = "(go_string \<times> json) list"

abbreviation JInt :: "int \<Rightarrow> json" where
  "JInt n \<equiv> JNum (show_int n)"

fun marshal :: "json \<Rightarrow> go_string"
and marshal_elems :: "json list \<Rightarrow> go_string"
and marshal_members :: "(go_string \<times> json) list \<Rightarrow> go_string"
where
  "marshal JNull = ''null''"
| "marshal (JBool b) = (if b then ''true'' else ''false'')"
| "marshal (JNum lit) = lit"
| "marshal (JStr s) = enc_string s"
| "marshal (JArr vs) = ''['' @ marshal_elems vs @ '']''"
| "marshal (JObj ms) = ''{'' @ marshal_members ms @ ''}''"
| "marshal_elems [] = []"
| "marshal_elems [v] = marshal v"
| "marshal_elems (v # w # vs) = marshal v @ '','' @ marshal_elems (w # vs)"
| "marshal_members [] = []"
| "marshal_members [(k, v)] = enc_string k @ '':'' @ marshal v"
| "marshal_members ((k, v) # m # ms) = enc_string k @ '':'' @ marshal v @ '','' @ marshal_members (m # ms)"

text \<open>A Go map: the members in the order of their keys.\<close>

definition marshal_map :: "go_map \<Rightarrow> go_string" where
  "marshal_map ms = marshal (JObj (sort_key fst ms))"

definition literal_int :: "go_string \<Rightarrow> int" where
  "literal_int lit =
     (if HasPrefix lit ''-'' then - int (digits_value 0 (tl lit)) else int (digits_value 0 lit))"

text \<open>The documents the program writes: every number is one that the decoder reads in full.\<close>

fun numbers_read :: "json \<Rightarrow> bool" where
  "numbers_read (JNum lit) = (p_num lit = Some (lit, []))"
| "numbers_read (JArr vs) = list_all numbers_read vs"
| "numbers_read (JObj ms) = list_all (\<lambda>(k, v). numbers_read v) ms"
| "numbers_read _ = True"

fun fix_json :: "json \<Rightarrow> json" where
  "fix_json (JStr s) = JStr (utf8_fix s)"
| "fix_json (JArr vs) = JArr (map fix_json vs)"
| "fix_json (JObj ms) = JObj (map (\<lambda>(k, v). (utf8_fix k, fix_json v)) ms)"
| "fix_json v = v"

fun nesting :: "json \<Rightarrow> nat" where
  "nesting (JArr vs) = Suc (fold max (map nesting vs) 0)"
| "nesting (JObj ms) = Suc (fold max (map (\<lambda>(k, v). nesting v) ms) 0)"
| "nesting _ = 0"


lemma literal_int_show_int [simp]: "literal_int (show_int n) = n"
proof (cases "n < 0")
  case False
  then have "\<not> HasPrefix (show_int n) ''-''"
    using show_nat_no_sign(1) [of "nat n"] by (auto simp: show_int_def HasPrefix_iff)
  then show ?thesis using False by (simp add: literal_int_def show_int_def)
qed (simp add: literal_int_def show_int_def HasPrefix_def)

lemma fold_max_le: "fold max xs a \<le> d \<longleftrightarrow> (a :: nat) \<le> d \<and> (\<forall>x \<in> set xs. x \<le> d)"
  by (induction xs arbitrary: a) auto

section \<open>Reading an encoded document\<close>

definition delimited :: "go_string \<Rightarrow> bool" where
  "delimited rest = (rest = [] \<or> hd rest \<in> {CHR '','', CHR ''}'', CHR '']'', CHR 0x0A})"

lemma expect_hit [simp]: "\<not> is_space c \<Longrightarrow> expect c (c # t) = Some t"
  by (simp add: expect_def skip_ws_def starts_def)

lemma expect_miss [simp]: "\<not> is_space b \<Longrightarrow> b \<noteq> c \<Longrightarrow> expect c (b # t) = None"
  by (simp add: expect_def skip_ws_def starts_def)

lemma punctuation [simp]:
  "\<not> is_space CHR '',''" "\<not> is_space CHR ''}''" "\<not> is_space CHR '']''" "\<not> is_space CHR '':''"
  "\<not> is_space (CHR 0x22)" "\<not> is_space CHR ''{''" "\<not> is_space CHR ''[''"
  by code_simp+

lemma show_nat_leading_zero: "starts CHR ''0'' (show_nat k) \<Longrightarrow> show_nat k = ''0''"
proof (induction k rule: show_nat.induct)
  case (1 k)
  have zero: "show_nat 0 = ''0''" by code_simp
  show ?case
  proof (cases "k < 10")
    case True
    have "k = 0" if "char_of (48 + k) = CHR ''0''"
    proof -
      have "char_code (char_of (48 + k) :: char) = 48 + k" using True by simp
      with that show ?thesis by simp
    qed
    with 1(2) True zero show ?thesis by (auto simp: show_nat.simps [of k] starts_def)
  next
    case False
    have "starts CHR ''0'' (show_nat (k div 10))"
      using 1(2) False show_nat_digits [of "k div 10"]
      by (simp add: show_nat.simps [of k] starts_def)
    then have "k div 10 = 0" using 1(1) [OF False] zero show_nat_inj by metis
    with False show ?thesis by simp
  qed
qed

lemma p_num_show_int:
  assumes "delimited rest"
  shows "p_num (show_int n @ rest) = Some (show_int n, rest)"
proof -
  have nd: "rest = [] \<or> \<not> is_digit (hd rest)" "\<not> starts CHR ''.'' rest" "\<not> starts CHR ''e'' rest"
    "\<not> starts CHR ''E'' rest"
    using assms by (auto simp: delimited_def is_digit_def starts_def)
  have tail: "p_frac rest = Some ([], rest)" "p_exp rest = Some ([], rest)"
    using nd by (simp_all add: p_frac_def p_exp_def)
  have pos: "takeWhile is_digit (show_nat k @ rest) = show_nat k" for k
    using show_nat_digits [of k] nd(1)
    by (cases rest) (simp_all add: takeWhile_append2 list_all_iff takeWhile_eq_all_conv)
  have ne: "show_nat k \<noteq> []" "\<not> starts CHR ''-'' (show_nat k @ rest)" for k
    using show_nat_digits [of k] by (cases "show_nat k"; auto simp: starts_def is_digit_def)+
  have main: "p_num (sg @ show_nat k @ rest) = Some (sg @ show_nat k, rest)"
    if sg: "sg = (if starts CHR ''-'' (sg @ show_nat k @ rest) then ''-'' else [])" for sg k
  proof -
    have d: "drop (length sg) (sg @ show_nat k @ rest) = show_nat k @ rest" by simp
    have ip: "(if starts CHR ''0'' (show_nat k) then ''0'' else show_nat k) = show_nat k"
      using show_nat_leading_zero by auto
    show ?thesis
      unfolding p_num_def Let_def sg [symmetric] d pos ip using ne(1) by (simp add: tail)
  qed
  show ?thesis
    using main [of "''-''" "nat (- n)"] main [of "[]" "nat n"] ne(2)
    by (simp add: show_int_def starts_def)
qed

text \<open>How a document and its parts begin.\<close>

lemma enc_string_Cons: "enc_string s @ t = CHR 0x22 # enc_chars s @ CHR 0x22 # t"
  by (simp add: enc_string_def)

lemma delimited_digits:
  assumes "delimited rest"
  shows "takeWhile is_digit (s @ rest) = takeWhile is_digit s"
    "dropWhile is_digit (s @ rest) = dropWhile is_digit s @ rest"
proof -
  have "takeWhile is_digit rest = []" "dropWhile is_digit rest = rest"
    using assms by (cases rest; auto simp: delimited_def is_digit_def)+
  then show "takeWhile is_digit (s @ rest) = takeWhile is_digit s"
    "dropWhile is_digit (s @ rest) = dropWhile is_digit s @ rest"
    by (simp_all add: takeWhile_append dropWhile_append)
      (metis append.right_neutral append_self_conv takeWhile_eq_all_conv dropWhile_eq_Nil_conv)+
qed

lemma delimited_starts:
  assumes "delimited rest" "c \<in> {CHR ''.'', CHR ''e'', CHR ''E'', CHR ''+'', CHR ''-'', CHR ''0''}"
  shows "starts c (s @ rest) = starts c s"
  using assms by (cases s; cases rest) (auto simp: delimited_def starts_def)

lemma p_frac_append:
  assumes "p_frac s = Some (fr, r)" "delimited rest"
  shows "p_frac (s @ rest) = Some (fr, r @ rest)"
  using assms delimited_digits [OF assms(2)]
  by (cases s) (auto simp: p_frac_def delimited_starts Let_def starts_def delimited_def split: if_splits)

lemma p_exp_append:
  assumes "p_exp s = Some (ex, r)" "delimited rest"
  shows "p_exp (s @ rest) = Some (ex, r @ rest)"
proof (cases s)
  case Nil
  then show ?thesis using assms by (auto simp: p_exp_def delimited_def starts_def)
next
  case (Cons c t)
  let ?sg = "if starts CHR ''+'' t \<or> starts CHR ''-'' t then [hd t] else []"
  have st: "starts CHR ''+'' (t @ rest) = starts CHR ''+'' t" "starts CHR ''-'' (t @ rest) = starts CHR ''-'' t"
    by (simp_all add: delimited_starts [OF assms(2)])
  have h: "(if starts CHR ''+'' (t @ rest) \<or> starts CHR ''-'' (t @ rest) then [hd (t @ rest)] else []) = ?sg"
    "drop (length ?sg) (t @ rest) = drop (length ?sg) t @ rest"
    unfolding st by (cases t; simp add: starts_def)+
  define r1 where "r1 = drop (length ?sg) t"
  have e: "starts d (c # u) = (c = d)" for d u by (simp add: starts_def)
  have "p_exp s = (if c = CHR ''e'' \<or> c = CHR ''E'' then
        if takeWhile is_digit r1 = [] then None
        else Some (c # ?sg @ takeWhile is_digit r1, dropWhile is_digit r1)
      else Some ([], s))"
    unfolding p_exp_def Cons Let_def list.sel e r1_def by (rule refl)
  moreover have "p_exp (s @ rest) = (if c = CHR ''e'' \<or> c = CHR ''E'' then
        if takeWhile is_digit r1 = [] then None
        else Some (c # ?sg @ takeWhile is_digit r1, dropWhile is_digit r1 @ rest)
      else Some ([], s @ rest))"
    unfolding p_exp_def Cons Let_def append_Cons list.sel e h r1_def [symmetric]
      delimited_digits [OF assms(2)] by (rule refl)
  ultimately show ?thesis using assms(1) by (simp split: if_splits)
qed

text \<open>A number that is read in full is read in front of a delimiter, too.\<close>

lemma p_num_append:
  assumes "p_num s = Some (x, r)" "delimited rest"
  shows "p_num (s @ rest) = Some (x, r @ rest)"
proof -
  have "s \<noteq> []" using p_num_less [OF assms(1)] by auto
  define sg where "sg = (if starts CHR ''-'' s then ''-'' else [])"
  define s1 where "s1 = drop (length sg) s"
  define ip where "ip = (if starts CHR ''0'' (takeWhile is_digit s1) then ''0'' else takeWhile is_digit s1)"
  have u: "(if starts CHR ''-'' (s @ rest) then ''-'' else []) = sg"
    "drop (length sg) (s @ rest) = s1 @ rest"
    using \<open>s \<noteq> []\<close> by (cases s; auto simp: sg_def s1_def starts_def)+
  have len: "length ip \<le> length s1"
    using length_takeWhile_le [of is_digit s1]
    by (cases "takeWhile is_digit s1") (auto simp: ip_def starts_def)
  have "(if ip = [] then None
      else do { (fr, s3) \<leftarrow> p_frac (drop (length ip) s1); (ex, s4) \<leftarrow> p_exp s3;
                Some (sg @ ip @ fr @ ex, s4) }) = Some (x, r)"
    using assms(1) unfolding p_num_def Let_def sg_def s1_def ip_def .
  then obtain fr s3 ex where 1: "ip \<noteq> []" "p_frac (drop (length ip) s1) = Some (fr, s3)"
    "p_exp s3 = Some (ex, r)" "x = sg @ ip @ fr @ ex"
    by (auto split: if_splits bind_splits)
  have "p_frac (drop (length ip) (s1 @ rest)) = Some (fr, s3 @ rest)"
    using p_frac_append [OF 1(2) assms(2)] len by simp
  then show ?thesis
    using 1(1,4) p_exp_append [OF 1(3) assms(2)]
    unfolding p_num_def Let_def u delimited_digits(1) [OF assms(2)] ip_def [symmetric] by simp
qed

lemma number_ok_show_int [simp]: "p_num (show_int n) = Some (show_int n, [])"
  using p_num_show_int [of "[]" n] by (simp add: delimited_def)

lemma p_frac_bytes: "p_frac s = Some (x, r) \<Longrightarrow> \<forall>c \<in> set x. c = CHR ''.'' \<or> is_digit c"
  by (auto simp: p_frac_def Let_def split: if_splits dest: set_takeWhileD)

lemma p_exp_bytes:
  "p_exp s = Some (x, r) \<Longrightarrow>
    \<forall>c \<in> set x. c \<in> {CHR ''e'', CHR ''E'', CHR ''+'', CHR ''-''} \<or> is_digit c"
  by (auto simp: p_exp_def Let_def starts_def split: if_splits dest: set_takeWhileD)

lemma p_num_bytes:
  assumes "p_num s = Some (x, r)"
  shows "\<exists>c t. x = c # t \<and> (c = CHR ''-'' \<or> is_digit c)"
    and "\<forall>c \<in> set x. c \<in> {CHR ''.'', CHR ''e'', CHR ''E'', CHR ''+'', CHR ''-''} \<or> is_digit c"
proof -
  define sg where "sg = (if starts CHR ''-'' s then ''-'' else [])"
  define run where "run = takeWhile is_digit (drop (length sg) s)"
  define ip where "ip = (if starts CHR ''0'' run then ''0'' else run)"
  have "(if ip = [] then None
      else do { (fr, s3) \<leftarrow> p_frac (drop (length ip) (drop (length sg) s)); (ex, s4) \<leftarrow> p_exp s3;
                Some (sg @ ip @ fr @ ex, s4) }) = Some (x, r)"
    using assms unfolding p_num_def Let_def sg_def run_def ip_def .
  then obtain fr s3 ex where 1: "ip \<noteq> []" "p_frac (drop (length ip) (drop (length sg) s)) = Some (fr, s3)"
    "p_exp s3 = Some (ex, r)" "x = sg @ ip @ fr @ ex"
    by (auto split: if_splits bind_splits)
  have ip: "\<forall>c \<in> set ip. is_digit c"
    by (auto simp: ip_def run_def starts_def is_digit_def dest: set_takeWhileD)
  then show "\<exists>c t. x = c # t \<and> (c = CHR ''-'' \<or> is_digit c)"
    using 1(1,4) by (cases ip) (auto simp: sg_def)
  show "\<forall>c \<in> set x. c \<in> {CHR ''.'', CHR ''e'', CHR ''E'', CHR ''+'', CHR ''-''} \<or> is_digit c"
    using ip p_frac_bytes [OF 1(2)] p_exp_bytes [OF 1(3)] by (auto simp: 1(4) sg_def)
qed

definition value_start :: "char \<Rightarrow> bool" where
  "value_start c = (c \<in> {CHR 0x22, CHR ''{'', CHR ''['', CHR ''n'', CHR ''t'', CHR ''f'', CHR ''-''} \<or> is_digit c)"

lemma value_start_distinct [simp]:
  "value_start c \<Longrightarrow> \<not> is_space c" "value_start c \<Longrightarrow> c \<noteq> CHR '']''"
  by (auto simp: value_start_def is_space_def is_digit_def)

lemma marshal_head:
  assumes "numbers_read v"
  shows "\<exists>c r. marshal v = c # r \<and> value_start c"
proof (cases v)
  case (JNum lit)
  then show ?thesis
    using assms p_num_bytes(1) [of lit lit "[]"] by (auto simp: value_start_def)
qed (auto simp: value_start_def enc_string_def)

lemma marshal_elems_head:
  assumes "list_all numbers_read (v # vs)"
  shows "\<exists>c r. marshal_elems (v # vs) = c # r \<and> value_start c"
proof -
  obtain c r where "marshal v = c # r" "value_start c" using marshal_head [of v] assms by auto
  then show ?thesis by (cases vs) auto
qed

lemma marshal_members_head: "\<exists>r. marshal_members (m # ms) = CHR 0x22 # r"
  by (cases m; cases ms) (simp_all add: enc_string_Cons)

lemma skip_ws_start: "value_start c \<Longrightarrow> skip_ws (c # r) = c # r"
  by (simp add: skip_ws_def)

lemma p_value_number:
  assumes "p_num lit = Some (lit, [])" "delimited rest"
  shows "p_value (Suc f) d (lit @ rest) = Some (JNum lit, rest)"
proof -
  obtain c r where c: "lit = c # r" "c = CHR ''-'' \<or> is_digit c" using p_num_bytes(1) [OF assms(1)] by blast
  then have "skip_ws (lit @ rest) = lit @ rest"
    by (auto simp: skip_ws_start value_start_def)
  moreover have "\<not> starts x (lit @ rest)" if "x \<in> {CHR ''{'', CHR ''['', CHR 0x22}" for x
    using c that by (auto simp: starts_def is_digit_def)
  moreover have "\<not> HasPrefix (lit @ rest) (x # y)" if "x \<in> {CHR ''n'', CHR ''t'', CHR ''f''}" for x y
    using c that by (auto simp: HasPrefix_def is_digit_def)
  ultimately show ?thesis using p_num_append [OF assms] by simp
qed

lemma read_marshal:
  "numbers_read v \<Longrightarrow> nesting v \<le> d \<Longrightarrow> delimited rest \<Longrightarrow> 2 * length (marshal v @ rest) < f \<Longrightarrow>
    p_value f d (marshal v @ rest) = Some (fix_json v, rest)"
  "vs \<noteq> [] \<Longrightarrow> list_all numbers_read vs \<Longrightarrow> \<forall>v \<in> set vs. nesting v \<le> d \<Longrightarrow>
    2 * length (marshal_elems vs @ CHR '']'' # rest) + 1 < f \<Longrightarrow>
    p_elems f d (marshal_elems vs @ CHR '']'' # rest) = Some (map fix_json vs, rest)"
  "ms \<noteq> [] \<Longrightarrow> list_all (\<lambda>(k, v). numbers_read v) ms \<Longrightarrow> \<forall>(k, v) \<in> set ms. nesting v \<le> d \<Longrightarrow>
    2 * length (marshal_members ms @ CHR ''}'' # rest) < f \<Longrightarrow>
    p_members f d (marshal_members ms @ CHR ''}'' # rest) =
      Some (map (\<lambda>(k, v). (utf8_fix k, fix_json v)) ms, rest)"
proof (induction v and vs and ms arbitrary: f d rest and f d rest and f d rest
    rule: marshal_marshal_elems_marshal_members.induct)
  case 1
  then obtain g where "f = Suc g" by (cases f) auto
  then show ?case by (simp add: skip_ws_def is_space_def starts_def HasPrefix_def)
next
  case (2 b)
  then obtain g where "f = Suc g" by (cases f) auto
  then show ?case by (auto simp: skip_ws_def is_space_def starts_def HasPrefix_def)
next
  case (3 lit)
  then obtain g where "f = Suc g" by (cases f) auto
  with 3(1,3) show ?case using p_value_number [of lit rest] by simp
next
  case (4 s)
  then obtain g where "f = Suc g" by (cases f) auto
  moreover have "\<not> is_space (CHR 0x22)" by simp
  ultimately show ?case
    by (simp add: enc_string_Cons skip_ws_def starts_def p_str_enc_chars del: punctuation)
next
  case (5 vs)
  then obtain g where g: "f = Suc g" by (cases f) auto
  have d: "d = Suc (d - 1)" "\<forall>v \<in> set vs. nesting v \<le> d - 1" using 5(3) by (cases d; auto simp: fold_max_le)+
  show ?case
  proof (cases vs)
    case Nil
    then show ?thesis using d(1) by (simp add: g skip_ws_def starts_def)
  next
    case (Cons v ws)
    with 5(2) obtain c r where c: "marshal_elems vs = c # r" "value_start c"
      using marshal_elems_head [of v ws] by auto
    have "p_elems g (d - 1) (marshal_elems vs @ CHR '']'' # rest) = Some (map fix_json vs, rest)"
      using 5 d(2) Cons g by (intro "5.IH") auto
    with c d(1) show ?thesis by (simp add: g skip_ws_def starts_def)
  qed
next
  case (6 ms)
  then obtain g where g: "f = Suc g" by (cases f) auto
  have d: "d = Suc (d - 1)" "\<forall>(k, v) \<in> set ms. nesting v \<le> d - 1" using 6(3) by (cases d; auto simp: fold_max_le)+
  show ?case
  proof (cases ms)
    case Nil
    then show ?thesis using d(1) by (simp add: g skip_ws_def starts_def)
  next
    case (Cons m ns)
    then obtain r where r: "marshal_members ms = CHR 0x22 # r"
      using marshal_members_head [of m ns] by auto
    have "p_members g (d - 1) (marshal_members ms @ CHR ''}'' # rest) =
        Some (map (\<lambda>(k, v). (utf8_fix k, fix_json v)) ms, rest)"
      using 6 d(2) Cons g by (intro "6.IH") auto
    with r d(1) show ?thesis by (simp add: g skip_ws_def starts_def)
  qed
next
  case 7
  then show ?case by simp
next
  case (8 v)
  then obtain g where g: "f = Suc g" by (cases f) auto
  have "p_value g d (marshal v @ CHR '']'' # rest) = Some (fix_json v, CHR '']'' # rest)"
    using 8 g by (intro "8.IH") (auto simp: delimited_def)
  then show ?case by (simp add: g)
next
  case (9 v w vs)
  then obtain g where g: "f = Suc g" by (cases f) auto
  have "p_value g d (marshal v @ CHR '','' # marshal_elems (w # vs) @ CHR '']'' # rest) =
      Some (fix_json v, CHR '','' # marshal_elems (w # vs) @ CHR '']'' # rest)"
    using 9 g by (intro "9.IH"(1)) (auto simp: delimited_def)
  moreover have "p_elems g d (marshal_elems (w # vs) @ CHR '']'' # rest) = Some (map fix_json (w # vs), rest)"
    using 9 g by (intro "9.IH"(2)) auto
  ultimately show ?case by (simp add: g)
next
  case 10
  then show ?case by simp
next
  case (11 k v)
  then obtain g where g: "f = Suc g" by (cases f) auto
  have "p_value g d (marshal v @ CHR ''}'' # rest) = Some (fix_json v, CHR ''}'' # rest)"
    using 11 g by (intro "11.IH") (auto simp: delimited_def enc_string_def)
  then show ?case by (simp add: g enc_string_Cons p_str_enc_chars)
next
  case (12 k v m ms)
  then obtain g where g: "f = Suc g" by (cases f) auto
  have "p_value g d (marshal v @ CHR '','' # marshal_members (m # ms) @ CHR ''}'' # rest) =
      Some (fix_json v, CHR '','' # marshal_members (m # ms) @ CHR ''}'' # rest)"
    using 12 g by (intro "12.IH"(1)) (auto simp: delimited_def enc_string_def)
  moreover have "p_members g d (marshal_members (m # ms) @ CHR ''}'' # rest) =
      Some (map (\<lambda>(k, v). (utf8_fix k, fix_json v)) (m # ms), rest)"
    using 12 g by (intro "12.IH"(2)) (auto simp: enc_string_def)
  ultimately show ?case by (simp add: g enc_string_Cons p_str_enc_chars)
qed


lemma parse_marshal:
  assumes "numbers_read v" "nesting v \<le> max_nesting_depth" "ws = [] \<or> ws = [CHR 0x0A]"
  shows "json_parse (marshal v @ ws) = Some (fix_json v)"
proof -
  have "delimited ws" "skip_ws ws = []"
    using assms(3) by (auto simp: delimited_def skip_ws_def is_space_def)
  then show ?thesis
    using read_marshal(1) [OF assms(1,2), of ws "2 * length (marshal v @ ws) + 2"]
    by (simp add: json_parse_def)
qed

lemma numbers_read_map [simp]:
  "numbers_read (JObj (sort_key fst ms)) = numbers_read (JObj ms)"
  by (simp add: list_all_iff)

lemma nesting_map [simp]: "nesting (JObj (sort_key fst ms)) \<le> d \<longleftrightarrow> nesting (JObj ms) \<le> d"
  by (cases d) (simp_all add: fold_max_le)

text \<open>A map is read back as its members in the order of their keys.\<close>

lemma parse_marshal_map:
  assumes "numbers_read (JObj ms)" "nesting (JObj ms) \<le> max_nesting_depth"
    and "ws = [] \<or> ws = [CHR 0x0A]"
  shows "json_parse (marshal_map ms @ ws) = Some (fix_json (JObj (sort_key fst ms)))"
  using parse_marshal [of "JObj (sort_key fst ms)" ws] assms
  by (simp add: marshal_map_def del: numbers_read.simps nesting.simps marshal.simps fix_json.simps)

section \<open>The bytes of an encoded string\<close>

lemma cont_bytes: "is_cont_in lo hi s i \<Longrightarrow> 128 \<le> lo \<Longrightarrow> 128 \<le> char_code (s ! i)"
  by (simp add: is_cont_in_def)

lemma rune_bytes:
  assumes "\<not> char_code (hd s) < 128" "rune_len s = n" "i < n"
  shows "128 \<le> char_code (s ! i)"
proof -
  define c where "c = char_code (hd s)"
  have s: "s \<noteq> []" "char_code (hd s) = c" using assms by (auto simp: rune_len_def c_def split: if_splits)
  then have zero: "s ! 0 = hd s" by (cases s) simp_all
  have i: "i < 4 \<Longrightarrow> i = 0 \<or> i = 1 \<or> i = 2 \<or> i = 3" by linarith
  consider "194 \<le> c" "c \<le> 223" | "c = 224" | "225 \<le> c" "c \<le> 236" | "c = 237"
    | "238 \<le> c" "c \<le> 239" | "c = 240" | "241 \<le> c" "c \<le> 243" | "c = 244"
    | "128 \<le> c" "c < 194" | "244 < c" using assms(1) s(2) by linarith
  then show ?thesis
    using assms(2,3) i zero s(2) assms(1)
    by cases (auto simp: rune_len_by_lead [OF s] less_Suc_eq numeral_2_eq_2 numeral_3_eq_3
        dest: cont_bytes split: if_splits)
qed

lemma utf8_ok_rune: "rune_len (c # s) = Suc n \<Longrightarrow> utf8_ok (c # take n s)"
  using rune_len_take [of "c # s"] by simp

end
