(* ===== verification/Jsonb.thy ===== *)
theory Jsonb
  imports Go_Json_Encode
begin

text \<open>
  Which strings the database takes as values of TEXT and JSONB columns, and that it takes
  every document the program encodes, as long as no string of it holds a NUL.
\<close>

section \<open>Values of text columns\<close>

text \<open>
  The encoding of the database is UTF-8: a TEXT value is valid UTF-8 without NUL. A JSONB
  value is moreover JSON with no escaped NUL and no escaped half of a surrogate pair. That the
  numbers of a document fit into NUMERIC and its nesting into the server's stack is not part
  of the model: a call that fails for it is a lost call.
\<close>

definition text_ok :: "go_string \<Rightarrow> bool" where
  "text_ok s = (utf8_ok s \<and> byte 0 \<notin> set s)"

function jsonb_escapes :: "go_string \<Rightarrow> bool" where
  "jsonb_escapes [] = True"
| "jsonb_escapes (c # s) =
     (if c \<noteq> CHR 0x5C then jsonb_escapes s
      else if \<not> starts CHR ''u'' s then jsonb_escapes (drop 1 s)
      else
        (case hex4 (tl s) of
           None \<Rightarrow> False
         | Some u \<Rightarrow>
             if u = 0 \<or> 56320 \<le> u \<and> u < 57344 then False
             else if 55296 \<le> u \<and> u < 56320 then
               (case getu4 (drop 5 s) of
                  None \<Rightarrow> False
                | Some v \<Rightarrow> 56320 \<le> v \<and> v < 57344 \<and> jsonb_escapes (drop 11 s))
             else jsonb_escapes (drop 5 s)))"
  by pat_completeness auto
termination
  by (relation "measure length") (auto simp: less_Suc_eq_le)

definition jsonb_ok :: "go_string \<Rightarrow> bool" where
  "jsonb_ok s = (text_ok s \<and> json_parse s \<noteq> None \<and> jsonb_escapes s)"

section \<open>Facts\<close>

lemma text_ok_ascii:
  "list_all (\<lambda>c. 0 < char_code c \<and> char_code c < 128) s \<Longrightarrow> text_ok s"
  using utf8_ok_ascii [of s] by (auto simp: text_ok_def list_all_iff byte_def)

lemma text_ok_append: "text_ok s \<Longrightarrow> text_ok (s @ t) = text_ok t"
  by (auto simp: text_ok_def utf8_ok_append)

lemma byte_0 [simp]: "byte 0 = CHR 0x00"
  by code_simp

lemma text_ok_no_nul: "text_ok s \<Longrightarrow> CHR 0x00 \<notin> set s"
  by (simp add: text_ok_def)

lemma literal_text_ok [simp]:
  "text_ok ''''" "text_ok ''transition_success''" "text_ok ''transition_failed''"
  "text_ok ''job_dead''" "text_ok ''reconcile_stuck_reset''" "text_ok ''{}''" "jsonb_ok ''{}''"
  "text_ok ''in_progress''" "text_ok ''code_review''" "text_ok ''rfqa''" "text_ok ''done''"
  by code_simp+

section \<open>Encoded documents are JSONB values\<close>

text \<open>
  A piece of a document that can stand anywhere in a JSONB value: it ends no character and no
  escape that it does not begin, and holds no NUL.
\<close>

definition clean :: "go_string \<Rightarrow> bool" where
  "clean s = ((\<forall>t. utf8_ok (s @ t) = utf8_ok t) \<and> CHR 0x00 \<notin> set s \<and>
     (\<forall>t. jsonb_escapes (s @ t) = jsonb_escapes t))"

lemma clean_append [intro]: "clean s \<Longrightarrow> clean t \<Longrightarrow> clean (s @ t)"
  by (simp add: clean_def)

lemma clean_Nil [simp]: "clean []"
  by (simp add: clean_def)

lemma clean_Cons: "clean [c] \<Longrightarrow> clean s \<Longrightarrow> clean (c # s)"
  using clean_append [of "[c]" s] by simp

lemma clean_char:
  assumes "0 < char_code c" "char_code c < 128" "c \<noteq> CHR 0x5C"
  shows "clean [c]"
  using assms by (auto simp: clean_def)

lemma clean_chars:
  "list_all (\<lambda>c. 0 < char_code c \<and> char_code c < 128 \<and> c \<noteq> CHR 0x5C) s \<Longrightarrow> clean s"
  by (induction s) (auto intro: clean_Cons clean_char)

lemma clean_jsonb: "clean s \<Longrightarrow> json_parse s \<noteq> None \<Longrightarrow> jsonb_ok s"
  by (simp add: clean_def jsonb_ok_def text_ok_def) (metis append_Nil2 jsonb_escapes.simps(1) utf8_ok.simps(1))

lemma clean_escape:
  assumes "list_all (\<lambda>c. 0 < char_code c \<and> char_code c < 128) (CHR 0x5C # e)"
    and "\<And>t. jsonb_escapes (CHR 0x5C # e @ t) = jsonb_escapes t"
  shows "clean (CHR 0x5C # e)"
proof -
  have "utf8_ok (CHR 0x5C # e)"
    using assms(1) by (intro utf8_ok_ascii) (auto simp: list_all_iff)
  from utf8_ok_append [OF this] assms show ?thesis
    by (auto simp: clean_def list_all_iff)
qed

lemma jsonb_hex_escape:
  assumes "0 < n" "n < 128"
  shows "jsonb_escapes (hex_escape n @ t) = jsonb_escapes t"
proof -
  have "hex_value CHR ''0'' = Some 0" by code_simp
  then have "hex4 (tl (tl (hex_escape n)) @ t) = Some n"
    using assms by (simp add: hex_escape_def hex_value_digit)
  with assms show ?thesis by (simp add: hex_escape_def starts_def)
qed

lemma clean_hex_escape:
  assumes "0 < n" "n < 128"
  shows "clean (hex_escape n)"
proof -
  have "0 < char_code (hex_digit k) \<and> char_code (hex_digit k) < 128" if "k < 16" for k
    using that by (auto simp: hex_digit_def byte_def)
  then show ?thesis
    using assms clean_escape [of "tl (hex_escape n)"] jsonb_hex_escape [OF assms]
    by (simp add: hex_escape_def)
qed

lemma clean_enc_ascii:
  assumes "char_code c < 128" "c \<noteq> CHR 0x00"
  shows "clean (enc_ascii c)"
proof -
  have n: "0 < char_code c" using assms(2) by (metis byte_0 byte_char_code gr0I)
  have two: "clean [CHR 0x5C, x]" if "0 < char_code x" "char_code x < 128" "x \<noteq> CHR ''u''" for x
    using that by (intro clean_escape) (auto simp: starts_def)
  show ?thesis
    using n assms(1) clean_hex_escape [OF n assms(1)] clean_char [OF n assms(1)]
    by (auto simp: enc_ascii_def Let_def intro!: two)
qed

lemma jsonb_escapes_wide:
  "list_all (\<lambda>c. 128 \<le> char_code c) u \<Longrightarrow> jsonb_escapes (u @ t) = jsonb_escapes t"
proof (induction u)
  case (Cons c u)
  then have "c \<noteq> CHR 0x5C" by auto
  with Cons show ?case by simp
qed simp

lemma clean_rune:
  assumes "\<not> char_code c < 128" "rune_len (c # s) = Suc n"
  shows "clean (c # take n s)"
proof -
  have "128 \<le> char_code x" if "x \<in> set (take (Suc n) (c # s))" for x
  proof -
    note mem = that
    obtain i where i: "i < length (take (Suc n) (c # s))" "take (Suc n) (c # s) ! i = x"
      using mem unfolding in_set_conv_nth by blast
    then have "i < Suc n" by simp
    moreover from this i(2) have "x = (c # s) ! i" by (metis nth_take)
    ultimately show ?thesis using rune_bytes [of "c # s", OF _ assms(2)] assms(1) by simp
  qed
  then have "list_all (\<lambda>x. 128 \<le> char_code x) (c # take n s)" by (simp add: list_all_iff)
  with utf8_ok_append [OF utf8_ok_rune [OF assms(2)]] jsonb_escapes_wide show ?thesis
    unfolding clean_def by (auto simp: list_all_iff)
qed

lemma clean_enc_rune: "clean u \<Longrightarrow> clean (enc_rune u)"
proof -
  have "clean ([CHR 0x5C] @ ''u2028'')" "clean ([CHR 0x5C] @ ''u2029'')"
  proof -
    have "hex_value CHR ''2'' = Some 2" "hex_value CHR ''0'' = Some 0" "hex_value CHR ''8'' = Some 8"
      "hex_value CHR ''9'' = Some 9"
      by code_simp+
    then show "clean ([CHR 0x5C] @ ''u2028'')" "clean ([CHR 0x5C] @ ''u2029'')"
      by (auto intro!: clean_escape simp: starts_def)
  qed
  then show "clean u \<Longrightarrow> clean (enc_rune u)" by (simp add: enc_rune_def)
qed

lemma clean_enc_chars: "CHR 0x00 \<notin> set s \<Longrightarrow> clean (enc_chars s)"
proof (induction s rule: enc_chars.induct)
  case (2 c s)
  have bad: "clean ([CHR 0x5C] @ ''ufffd'')"
  proof -
    have "hex_value CHR ''f'' = Some 15" "hex_value CHR ''d'' = Some 13" by code_simp+
    then show ?thesis by (auto intro!: clean_escape simp: starts_def)
  qed
  consider "char_code c < 128" | "\<not> char_code c < 128" "rune_len (c # s) = 0"
    | n where "\<not> char_code c < 128" "rune_len (c # s) = Suc n" by (meson not0_implies_Suc)
  then show ?case
  proof cases
    case 1
    then show ?thesis using 2 clean_append [OF clean_enc_ascii [OF 1]] by auto
  next
    case hit: 2
    with 2 show ?thesis using clean_append [OF bad, of "enc_chars s"] by simp
  next
    case 3
    have "CHR 0x00 \<notin> set (drop n s)" using 2(4) by (auto dest: in_set_dropD)
    then have "clean (enc_chars (drop n s))" using "2.IH"(3) 3 by simp
    with clean_append [OF clean_enc_rune [OF clean_rune [OF 3]]] 3 show ?thesis by simp
  qed
qed simp

lemma clean_number:
  assumes "p_num lit = Some (lit, [])"
  shows "clean lit"
proof -
  have "0 < char_code c \<and> char_code c < 128 \<and> c \<noteq> CHR 0x5C"
    if "c \<in> {CHR ''.'', CHR ''e'', CHR ''E'', CHR ''+'', CHR ''-''} \<or> is_digit c" for c
    using that by (auto simp: is_digit_def)
  with p_num_bytes(2) [OF assms] have "list_all (\<lambda>c. 0 < char_code c \<and> char_code c < 128 \<and> c \<noteq> CHR 0x5C) lit"
    by (simp add: list_all_iff)
  then show ?thesis by (rule clean_chars)
qed

lemma clean_enc_string: "CHR 0x00 \<notin> set s \<Longrightarrow> clean (enc_string s)"
  unfolding enc_string_def by (intro clean_append clean_enc_chars clean_char) simp_all

lemma clean_literals [simp]:
  "clean ''null''" "clean ''true''" "clean ''false''" "clean '',''" "clean '':''"
  "clean ''[''" "clean '']''" "clean ''{''" "clean ''}''"
  by (intro clean_chars; simp)+

lemma clean_punctuation:
  "clean s \<Longrightarrow> clean (CHR '','' # s)" "clean s \<Longrightarrow> clean (CHR '':'' # s)"
  "clean s \<Longrightarrow> clean (CHR ''['' # s)" "clean s \<Longrightarrow> clean (CHR ''{'' # s)"
  by (simp_all add: clean_Cons)

text \<open>No string of the document holds a NUL.\<close>

fun no_nul :: "json \<Rightarrow> bool" where
  "no_nul (JStr s) = (CHR 0x00 \<notin> set s)"
| "no_nul (JArr vs) = list_all no_nul vs"
| "no_nul (JObj ms) = list_all (\<lambda>(k, v). CHR 0x00 \<notin> set k \<and> no_nul v) ms"
| "no_nul _ = True"

lemma clean_marshal:
  "numbers_read v \<Longrightarrow> no_nul v \<Longrightarrow> clean (marshal v)"
  "list_all numbers_read vs \<Longrightarrow> list_all no_nul vs \<Longrightarrow> clean (marshal_elems vs)"
  "list_all (\<lambda>(k, v). numbers_read v) ms \<Longrightarrow>
    list_all (\<lambda>(k, v). CHR 0x00 \<notin> set k \<and> no_nul v) ms \<Longrightarrow> clean (marshal_members ms)"
proof (induction v and vs and ms rule: marshal_marshal_elems_marshal_members.induct)
  case (3 lit)
  then show ?case using clean_number by simp
qed (auto intro!: clean_append clean_punctuation clean_enc_string)

lemma jsonb_ok_marshal:
  assumes "numbers_read v" "no_nul v" "nesting v \<le> max_nesting_depth"
  shows "jsonb_ok (marshal v)"
  using clean_jsonb [OF clean_marshal(1) [OF assms(1,2)]] parse_marshal [OF assms(1,3), of "[]"]
  by simp

lemma no_nul_map [simp]: "no_nul (JObj (sort_key fst ms)) = no_nul (JObj ms)"
  by (simp add: list_all_iff)

lemma jsonb_ok_marshal_map:
  assumes "numbers_read (JObj ms)" "no_nul (JObj ms)" "nesting (JObj ms) \<le> max_nesting_depth"
  shows "jsonb_ok (marshal_map ms)"
  using jsonb_ok_marshal [of "JObj (sort_key fst ms)"] assms
  by (simp add: marshal_map_def del: numbers_read.simps nesting.simps marshal.simps no_nul.simps)

text \<open>A flat document of storable texts and integers is stored, and read back unchanged.\<close>

fun flat_value :: "json \<Rightarrow> bool" where
  "flat_value (JStr s) = text_ok s"
| "flat_value (JNum lit) = (lit = show_int (literal_int lit))"
| "flat_value _ = False"

definition flat :: "go_map \<Rightarrow> bool" where
  "flat ms = list_all (\<lambda>(k, v). text_ok k \<and> flat_value v) ms"

lemma flat_simps [simp]:
  "flat []" "flat ((k, v) # ms) \<longleftrightarrow> text_ok k \<and> flat_value v \<and> flat ms"
  by (simp_all add: flat_def)

lemma flat_value_facts:
  assumes "flat_value v"
  shows "numbers_read v" "no_nul v" "nesting v = 0" "fix_json v = v"
  using assms number_ok_show_int by (cases v; simp add: text_ok_def utf8_fix_valid; metis)+

lemma flat_document:
  assumes "flat ms"
  shows "jsonb_ok (marshal_map ms)" "json_parse (marshal_map ms) = Some (JObj (sort_key fst ms))"
proof -
  note f = assms [unfolded flat_def list_all_iff, rule_format]
  have "numbers_read (JObj ms)" "no_nul (JObj ms)"
    using f by (auto simp: list_all_iff flat_value_facts text_ok_no_nul)
  moreover have "nesting (JObj ms) \<le> max_nesting_depth"
    using f flat_value_facts(3) by (fastforce simp: fold_max_le max_nesting_depth_def)
  moreover have "fix_json (JObj (sort_key fst ms)) = JObj (sort_key fst ms)"
    using f by (force simp: flat_value_facts text_ok_def utf8_fix_valid intro!: map_idI)
  ultimately show "jsonb_ok (marshal_map ms)" "json_parse (marshal_map ms) = Some (JObj (sort_key fst ms))"
    using jsonb_ok_marshal_map [of ms] parse_marshal_map [of ms "[]"] by simp_all
qed

end
