(* ===== verification/Tables.thy ===== *)
theory Tables
  imports Domain Jsonb
begin

text \<open>
  The three tables of the database as the migrations under \<open>migrations/\<close> leave them, and
  what each SQL statement of \<open>internal/store\<close> does to them: primary keys, the unique
  idempotency key, the checks on enumerated columns, the integer range of INTEGER columns,
  the encoding of TEXT and JSONB columns and the foreign keys, with a violation as an error
  that changes nothing.

  A table is the list of its rows in insertion order. Rows that compare equal under
  ORDER BY keep that order (one of the orders the database may return).
\<close>

section \<open>Rows\<close>

record JobRow = Job +
  running_since :: "instant option"

record AuditRow =
  ar_ID :: go_string
  ar_EventID :: "go_string option"
  ar_JobID :: "go_string option"
  ar_Action :: go_string
  ar_IssueKey :: go_string
  ar_Detail :: go_string
  ar_CreatedAt :: instant

record db =
  events :: "NormalizedEvent list"
  jobs :: "JobRow list"
  audit_logs :: "AuditRow list"

definition empty_db :: db where
  "empty_db = \<lparr>events = [], jobs = [], audit_logs = []\<rparr>"

text \<open>A time that the program sends is kept to the microsecond.\<close>

definition timestamptz :: "instant \<Rightarrow> instant" where
  "timestamptz t = t div 1000 * 1000"

text \<open>
  The columns of an event; the other fields come back as their zero values. The payload is kept
  as it was sent: the database stores the document and gives it back in a spelling of its own,
  which nothing in the program looks at.
\<close>

definition event_row :: "NormalizedEvent \<Rightarrow> NormalizedEvent" where
  "event_row e =
     e\<lparr>ev_Type := EventType_of (EventType_str (ev_Type e)),
       ReceivedAt := timestamptz (ReceivedAt e), CommitMessages := [], EmojiName := '''',
       MRState := ''''\<rparr>"

definition job_row :: "Job \<Rightarrow> JobRow" where
  "job_row j =
     Job.extend
       (j\<lparr>job_Type := JobType_of (JobType_str (job_Type j)),
          job_Status := JobStatus_of (JobStatus_str (job_Status j)),
          TargetState := WorkflowState_of (WorkflowState_str (TargetState j)),
          NextRunAt := timestamptz (NextRunAt j), job_CreatedAt := timestamptz (job_CreatedAt j),
          CompletedAt := None\<rparr>)
       \<lparr>running_since = None\<rparr>"

definition job_of :: "JobRow \<Rightarrow> Job" where
  "job_of r = Job.truncate r"

section \<open>Inserts\<close>

definition int4_ok :: "int \<Rightarrow> bool" where
  "int4_ok n = (- 2147483648 \<le> n \<and> n \<le> 2147483647)"

definition event_texts_ok :: "NormalizedEvent \<Rightarrow> bool" where
  "event_texts_ok e =
     (list_all text_ok (IssueKeys_of e) \<and>
      list_all text_ok [IdempotencyKey e, SourceBranch e, TargetBranch e, MRTitle e, AuthorEmail e] \<and>
      jsonb_ok (RawPayload e))"

definition job_texts_ok :: "Job \<Rightarrow> bool" where
  "job_texts_ok j =
     (text_ok (job_IssueKey j) \<and> text_ok (WorkflowState_str (TargetState j)) \<and>
      text_ok (LastError j) \<and> jsonb_ok (job_Payload j))"

definition event_types :: "go_string list" where
  "event_types =
     [''push'', ''mr_opened'', ''mr_merged'', ''mr_draft'', ''emoji_award'', ''unrecognized'']"

definition job_statuses :: "go_string list" where
  "job_statuses = [''pending'', ''running'', ''completed'', ''failed'', ''dead'']"

definition has_event_key :: "db \<Rightarrow> go_string \<Rightarrow> bool" where
  "has_event_key d k = (k \<in> IdempotencyKey ` set (events d))"

definition has_event_id :: "db \<Rightarrow> go_string \<Rightarrow> bool" where
  "has_event_id d i = (i \<in> ev_ID ` set (events d))"

definition has_job_id :: "db \<Rightarrow> go_string \<Rightarrow> bool" where
  "has_job_id d i = (i \<in> job_ID ` set (jobs d))"

text \<open>An event whose columns take its values.\<close>

definition storable :: "NormalizedEvent \<Rightarrow> bool" where
  "storable e = (int4_ok (MRIID e) \<and> int4_ok (ProjectID e) \<and> event_texts_ok e)"

definition sql_insert_event :: "NormalizedEvent \<Rightarrow> db \<Rightarrow> db result" where
  "sql_insert_event e d =
     (if \<not> event_texts_ok e then Inl (Errorf ''invalid input syntax'')
      else if EventType_str (ev_Type e) \<notin> set event_types then Inl (Errorf ''check violation'')
      else if \<not> int4_ok (MRIID e) \<or> \<not> int4_ok (ProjectID e) then Inl (Errorf ''integer out of range'')
      else if has_event_key d (IdempotencyKey e) then Inr d
      else if has_event_id d (ev_ID e) then Inl (Errorf ''unique violation'')
      else Inr (d\<lparr>events := events d @ [event_row e]\<rparr>))"

definition sql_insert_job :: "Job \<Rightarrow> db \<Rightarrow> db result" where
  "sql_insert_job j d =
     (if \<not> job_texts_ok j then Inl (Errorf ''invalid input syntax'')
      else if JobType_str (job_Type j) \<noteq> ''jira_transition'' \<or>
         JobStatus_str (job_Status j) \<notin> set job_statuses then Inl (Errorf ''check violation'')
      else if \<not> int4_ok (Attempts j) \<or> \<not> int4_ok (MaxAttempts j)
      then Inl (Errorf ''integer out of range'')
      else if has_job_id d (job_ID j) then Inl (Errorf ''unique violation'')
      else if \<not> has_event_id d (job_EventID j) then Inl (Errorf ''foreign key violation'')
      else Inr (d\<lparr>jobs := jobs d @ [job_row j]\<rparr>))"

definition nullableString :: "go_string \<Rightarrow> go_string option" where
  "nullableString s = (if s = '''' then None else Some s)"

definition sql_insert_audit :: "AuditEntry \<Rightarrow> db \<Rightarrow> db result" where
  "sql_insert_audit e d =
     (let eventID = nullableString (aud_EventID e); jobID = nullableString (aud_JobID e) in
      if \<not> list_all text_ok [Action e, aud_IssueKey e] \<or> \<not> jsonb_ok (Detail e)
      then Inl (Errorf ''invalid input syntax'')
      else if aud_ID e \<in> ar_ID ` set (audit_logs d) then Inl (Errorf ''unique violation'')
      else if \<not> pred_option (has_event_id d) eventID \<or> \<not> pred_option (has_job_id d) jobID
      then Inl (Errorf ''foreign key violation'')
      else Inr (d\<lparr>audit_logs := audit_logs d @
        [\<lparr>ar_ID = aud_ID e, ar_EventID = eventID, ar_JobID = jobID, ar_Action = Action e,
          ar_IssueKey = aud_IssueKey e, ar_Detail = Detail e, ar_CreatedAt = timestamptz (aud_CreatedAt e)\<rparr>]\<rparr>))"

section \<open>Updates of jobs\<close>

definition update_jobs :: "(JobRow \<Rightarrow> bool) \<Rightarrow> (JobRow \<Rightarrow> JobRow) \<Rightarrow> db \<Rightarrow> db" where
  "update_jobs P f d = d\<lparr>jobs := map (\<lambda>r. if P r then f r else r) (jobs d)\<rparr>"

definition complete_row :: "instant \<Rightarrow> JobRow \<Rightarrow> JobRow" where
  "complete_row now r =
     r\<lparr>job_Status := JobCompleted, CompletedAt := Some now, running_since := None\<rparr>"

definition fail_row :: "go_string \<Rightarrow> instant \<Rightarrow> JobRow \<Rightarrow> JobRow" where
  "fail_row errMsg nextRunAt r =
     r\<lparr>job_Status := JobFailed, LastError := errMsg, NextRunAt := timestamptz nextRunAt,
       Attempts := Attempts r + 1, running_since := None\<rparr>"

definition dead_row :: "go_string \<Rightarrow> JobRow \<Rightarrow> JobRow" where
  "dead_row errMsg r =
     r\<lparr>job_Status := JobDead, LastError := errMsg, Attempts := Attempts r + 1,
       running_since := None\<rparr>"

definition claim_row :: "instant \<Rightarrow> JobRow \<Rightarrow> JobRow" where
  "claim_row now r = r\<lparr>job_Status := JobRunning, running_since := Some now\<rparr>"

definition reset_row :: "instant \<Rightarrow> JobRow \<Rightarrow> JobRow" where
  "reset_row now r = r\<lparr>job_Status := JobPending, NextRunAt := now, running_since := None\<rparr>"

definition sql_mark_completed :: "go_string \<Rightarrow> instant \<Rightarrow> db \<Rightarrow> db" where
  "sql_mark_completed i now d = update_jobs (\<lambda>r. job_ID r = i) (complete_row now) d"

text \<open>A mark that carries an error text is refused when the text is no TEXT value.\<close>

definition with_text :: "go_string \<Rightarrow> db \<Rightarrow> (db \<times> unit) result" where
  "with_text errMsg d =
     (if text_ok errMsg then Inr (d, ()) else Inl (Errorf ''invalid byte sequence for encoding''))"

definition sql_mark_failed :: "go_string \<Rightarrow> go_string \<Rightarrow> instant \<Rightarrow> db \<Rightarrow> db" where
  "sql_mark_failed i errMsg nextRunAt d =
     update_jobs (\<lambda>r. job_ID r = i) (fail_row errMsg nextRunAt) d"

definition sql_mark_dead :: "go_string \<Rightarrow> go_string \<Rightarrow> db \<Rightarrow> db" where
  "sql_mark_dead i errMsg d = update_jobs (\<lambda>r. job_ID r = i) (dead_row errMsg) d"

definition due :: "instant \<Rightarrow> JobRow \<Rightarrow> bool" where
  "due now r = ((job_Status r = JobPending \<or> job_Status r = JobFailed) \<and> NextRunAt r \<le> now)"

text \<open>\<open>FOR UPDATE SKIP LOCKED\<close>: rows another transaction holds are passed over.\<close>

definition sql_select_due :: "instant \<Rightarrow> go_string list \<Rightarrow> nat \<Rightarrow> db \<Rightarrow> JobRow list" where
  "sql_select_due now locked batch d =
     take batch (sort_key NextRunAt (filter (\<lambda>r. due now r \<and> job_ID r \<notin> set locked) (jobs d)))"

definition sql_claim :: "instant \<Rightarrow> go_string list \<Rightarrow> db \<Rightarrow> db" where
  "sql_claim now ids d = update_jobs (\<lambda>r. job_ID r \<in> set ids) (claim_row now) d"

definition stuck :: "instant \<Rightarrow> JobRow \<Rightarrow> bool" where
  "stuck cutoff r =
     (job_Status r = JobRunning \<and> (case running_since r of None \<Rightarrow> False | Some t \<Rightarrow> t < cutoff))"

definition sql_reset_stuck :: "instant \<Rightarrow> instant \<Rightarrow> db \<Rightarrow> db \<times> int" where
  "sql_reset_stuck cutoff now d =
     (update_jobs (stuck cutoff) (reset_row now) d, int (length (filter (stuck cutoff) (jobs d))))"

section \<open>Queries\<close>

definition sql_list_failed :: "nat \<Rightarrow> db \<Rightarrow> JobRow list" where
  "sql_list_failed limit d =
     take limit (sort_key (\<lambda>r. - job_CreatedAt r)
       (filter (\<lambda>r. job_Status r = JobFailed \<or> job_Status r = JobDead) (jobs d)))"

definition sql_list_stale :: "instant \<Rightarrow> db \<Rightarrow> JobRow list" where
  "sql_list_stale cutoff d =
     filter (\<lambda>r. job_Status r = JobRunning \<and> NextRunAt r < cutoff) (jobs d)"

definition sql_list_recent :: "nat \<Rightarrow> db \<Rightarrow> NormalizedEvent list" where
  "sql_list_recent limit d = take limit (sort_key (\<lambda>e. - ReceivedAt e) (events d))"

definition sql_event_by_id :: "go_string \<Rightarrow> db \<Rightarrow> NormalizedEvent option" where
  "sql_event_by_id i d = List.find (\<lambda>e. ev_ID e = i) (events d)"

section \<open>Integrity of the tables\<close>

definition db_inv :: "db \<Rightarrow> bool" where
  "db_inv d =
     (distinct (map IdempotencyKey (events d)) \<and>
      distinct (map ev_ID (events d)) \<and>
      distinct (map job_ID (jobs d)) \<and>
      (\<forall>r \<in> set (jobs d). has_event_id d (job_EventID r)) \<and>
      (\<forall>r \<in> set (jobs d). (job_Status r = JobRunning) = (running_since r \<noteq> None)) \<and>
      (\<forall>a \<in> set (audit_logs d). pred_option (has_event_id d) (ar_EventID a) \<and>
         pred_option (has_job_id d) (ar_JobID a)))"

section \<open>Facts\<close>

lemmas row_update_defs [step_simps] =
  complete_row_def fail_row_def dead_row_def claim_row_def reset_row_def

lemma timestamptz_le: "timestamptz t \<le> t"
  by (simp add: timestamptz_def mult.commute pos_mod_sign minus_mod_eq_mult_div [symmetric])

lemma timestamptz_near: "t - 1000 < timestamptz t"
  by (simp add: timestamptz_def minus_mod_eq_div_mult [symmetric] pos_mod_bound)

lemma timestamptz_0 [simp]: "timestamptz 0 = 0"
  by (simp add: timestamptz_def)

lemmas sql_update_defs =
  sql_mark_completed_def sql_mark_failed_def sql_mark_dead_def sql_claim_def sql_reset_stuck_def

definition job_lookup :: "db \<Rightarrow> go_string \<Rightarrow> JobRow option" where
  "job_lookup d i = List.find (\<lambda>r. job_ID r = i) (jobs d)"

text \<open>What every update of the code keeps of a row.\<close>

definition keeps_row :: "(JobRow \<Rightarrow> JobRow) \<Rightarrow> bool" where
  "keeps_row f = (\<forall>r. job_ID (f r) = job_ID r \<and> job_EventID (f r) = job_EventID r \<and>
     job_Type (f r) = job_Type r \<and> job_IssueKey (f r) = job_IssueKey r \<and>
     TargetState (f r) = TargetState r \<and> MaxAttempts (f r) = MaxAttempts r \<and>
     Attempts r \<le> Attempts (f r) \<and>
     ((job_Status (f r) = JobRunning) = (running_since (f r) \<noteq> None)))"

lemma keeps_rows [simp]:
  "keeps_row (complete_row now)" "keeps_row (fail_row m t)" "keeps_row (dead_row m)"
  "keeps_row (claim_row now)" "keeps_row (reset_row now)"
  by (simp_all add: keeps_row_def step_simps)

lemma events_update_jobs [simp]:
  "events (update_jobs P f d) = events d" "audit_logs (update_jobs P f d) = audit_logs d"
  "has_event_id (update_jobs P f d) = has_event_id d"
  "has_event_key (update_jobs P f d) = has_event_key d"
  by (simp_all add: update_jobs_def has_event_id_def has_event_key_def fun_eq_iff)

lemma jobs_update_jobs: "jobs (update_jobs P f d) = map (\<lambda>r. if P r then f r else r) (jobs d)"
  by (simp add: update_jobs_def)

lemma job_IDs_update_jobs [simp]:
  "keeps_row f \<Longrightarrow> map job_ID (jobs (update_jobs P f d)) = map job_ID (jobs d)"
  by (simp add: jobs_update_jobs keeps_row_def)

lemma has_job_id_update_jobs [simp]:
  "keeps_row f \<Longrightarrow> has_job_id (update_jobs P f d) = has_job_id d"
proof -
  assume "keeps_row f"
  then have "set (map job_ID (jobs (update_jobs P f d))) = set (map job_ID (jobs d))" by simp
  then show ?thesis by (simp add: has_job_id_def fun_eq_iff)
qed

lemma job_lookup_update:
  assumes "keeps_row f"
  shows "job_lookup (update_jobs P f d) i =
    map_option (\<lambda>r. if P r then f r else r) (job_lookup d i)"
proof -
  have "List.find (\<lambda>r. job_ID r = i) (map (\<lambda>r. if P r then f r else r) rs) =
      map_option (\<lambda>r. if P r then f r else r) (List.find (\<lambda>r. job_ID r = i) rs)" for rs
    using assms by (induction rs) (auto simp: keeps_row_def)
  then show ?thesis by (simp add: job_lookup_def jobs_update_jobs)
qed

lemma job_lookup_None_iff: "job_lookup d i = None \<longleftrightarrow> \<not> has_job_id d i"
  by (auto simp: job_lookup_def has_job_id_def find_None_iff)

lemma job_lookup_Some: "job_lookup d i = Some r \<Longrightarrow> r \<in> set (jobs d) \<and> job_ID r = i"
  unfolding job_lookup_def by (rule find_Some_set)

lemma job_lookup_in:
  assumes "distinct (map job_ID (jobs d))" "r \<in> set (jobs d)"
  shows "job_lookup d (job_ID r) = Some r"
proof -
  have "\<exists>s. job_lookup d (job_ID r) = Some s"
    using job_lookup_None_iff [of d "job_ID r"] assms(2)
    by (cases "job_lookup d (job_ID r)") (auto simp: has_job_id_def)
  then obtain s where s: "job_lookup d (job_ID r) = Some s" ..
  with job_lookup_Some [OF this] assms show ?thesis
    by (metis distinct_map inj_on_eq_iff)
qed

lemma db_inv_update_jobs:
  assumes "db_inv d" "keeps_row f"
  shows "db_inv (update_jobs P f d)"
  using assms by (auto simp: db_inv_def jobs_update_jobs keeps_row_def split: if_splits
      simp flip: job_IDs_update_jobs [OF assms(2), of P d])

lemma db_inv_updates:
  assumes "db_inv d"
  shows "db_inv (sql_mark_completed i now d)" "db_inv (sql_mark_failed i m t d)"
    "db_inv (sql_mark_dead i m d)" "db_inv (sql_claim now ids d)"
    "db_inv (fst (sql_reset_stuck cutoff now d))"
  using assms by (simp_all add: sql_update_defs db_inv_update_jobs)

lemma db_inv_empty: "db_inv empty_db"
  by (simp add: db_inv_def empty_db_def)

lemma event_row_simps [simp]:
  "ev_ID (event_row e) = ev_ID e" "IdempotencyKey (event_row e) = IdempotencyKey e"
  "IssueKeys_of (event_row e) = IssueKeys_of e" "RawPayload (event_row e) = RawPayload e"
  by (simp_all add: event_row_def)

lemma job_row_simps [simp]:
  "job_ID (job_row j) = job_ID j" "job_EventID (job_row j) = job_EventID j"
  "job_IssueKey (job_row j) = job_IssueKey j" "Attempts (job_row j) = Attempts j"
  "MaxAttempts (job_row j) = MaxAttempts j" "NextRunAt (job_row j) = timestamptz (NextRunAt j)"
  "job_CreatedAt (job_row j) = timestamptz (job_CreatedAt j)" "running_since (job_row j) = None"
  "job_Status (job_row j) = JobStatus_of (JobStatus_str (job_Status j))"
  "job_Type (job_row j) = JobType_of (JobType_str (job_Type j))"
  "TargetState (job_row j) = WorkflowState_of (WorkflowState_str (TargetState j))"
  by (simp_all add: job_row_def Job.extend_def)

lemma job_of_simps [simp]:
  "job_ID (job_of r) = job_ID r" "job_EventID (job_of r) = job_EventID r"
  "job_IssueKey (job_of r) = job_IssueKey r" "Attempts (job_of r) = Attempts r"
  "MaxAttempts (job_of r) = MaxAttempts r" "NextRunAt (job_of r) = NextRunAt r"
  "job_Status (job_of r) = job_Status r" "job_Type (job_of r) = job_Type r"
  "TargetState (job_of r) = TargetState r"
  by (simp_all add: job_of_def Job.truncate_def)

lemma insert_event_cases:
  assumes "sql_insert_event e d = Inr d'"
  obtains "has_event_key d (IdempotencyKey e)" "d' = d"
  | "\<not> has_event_key d (IdempotencyKey e)" "\<not> has_event_id d (ev_ID e)"
    "d' = d\<lparr>events := events d @ [event_row e]\<rparr>"
  using assms by (auto simp: sql_insert_event_def split: if_splits)

lemma insert_job_Inr:
  assumes "sql_insert_job j d = Inr d'"
  shows "\<not> has_job_id d (job_ID j)" "has_event_id d (job_EventID j)"
    "d' = d\<lparr>jobs := jobs d @ [job_row j]\<rparr>"
  using assms by (auto simp: sql_insert_job_def split: if_splits)

lemma insert_audit_Inr:
  assumes "sql_insert_audit e d = Inr d'"
  shows "events d' = events d" "jobs d' = jobs d"
    "\<exists>a. audit_logs d' = audit_logs d @ [a] \<and> ar_Action a = Action e \<and>
      ar_IssueKey a = aud_IssueKey e \<and> ar_Detail a = Detail e \<and>
      pred_option (has_event_id d) (ar_EventID a) \<and> pred_option (has_job_id d) (ar_JobID a)"
  using assms by (auto simp: sql_insert_audit_def Let_def split: if_splits)

lemma db_inv_insert_event:
  assumes "db_inv d" "sql_insert_event e d = Inr d'"
  shows "db_inv d'"
  using assms(2)
proof (cases rule: insert_event_cases)
  case 2
  then have mono: "has_event_id d x \<Longrightarrow> has_event_id d' x" "has_job_id d' = has_job_id d" for x
    by (auto simp: has_event_id_def has_job_id_def fun_eq_iff)
  show ?thesis
    using assms(1) 2 mono unfolding db_inv_def
    by (auto simp: has_event_key_def has_event_id_def intro: option.pred_mono_strong)
qed (use assms in simp)

lemma db_inv_insert_job:
  assumes "db_inv d" "sql_insert_job j d = Inr d'" "job_Status j \<noteq> JobRunning"
    "job_Status j \<noteq> JobStatusOther ''running''"
  shows "db_inv d'"
proof -
  note d' = insert_job_Inr [OF assms(2)]
  have mono: "has_job_id d x \<Longrightarrow> has_job_id d' x" "has_event_id d' = has_event_id d" for x
    using d'(3) by (auto simp: has_event_id_def has_job_id_def fun_eq_iff)
  have "job_Status (job_row j) \<noteq> JobRunning"
    using assms(3,4) by (cases "job_Status j") (auto simp: JobStatus_of_def)
  then show ?thesis
    using assms(1) d' mono unfolding db_inv_def
    by (auto simp: has_job_id_def intro: option.pred_mono_strong)
qed

lemma db_inv_insert_audit:
  assumes "db_inv d" "sql_insert_audit e d = Inr d'"
  shows "db_inv d'"
proof -
  note a = insert_audit_Inr [OF assms(2)]
  have "has_event_id d' = has_event_id d" "has_job_id d' = has_job_id d"
    using a by (simp_all add: has_event_id_def has_job_id_def fun_eq_iff)
  with assms(1) a show ?thesis unfolding db_inv_def by auto
qed

end
