(* ===== verification/World.thy ===== *)
theory World
  imports Complex_Main Tables Issue_Key
begin

text \<open>
  The state the program acts on and what it is given from outside.

  \<open>plugin/plugin.go\<close> keeps two registries of handlers: lists, in registration order. An
  event handler is a function to an optional error. A job handler returns nothing; it is
  known by a number.

  The \<open>env\<close> record holds what no code under \<open>internal/\<close> decides: the identifiers of
  \<open>google/uuid\<close>, the readings of the clocks, the faults of the database, the rows other
  transactions hold, the answers of the Jira server and of the URL parser. What can change
  from call to call is indexed by the number of calls made so far, so that every call may be
  answered differently. The value the database gives back for a stored JSONB text is
  \<open>jsonb_value\<close>. A statement about the program quantifies over the environment.
\<close>

section \<open>Plugin registry\<close>

type_synonym EventHandler = "NormalizedEvent \<Rightarrow> go_error option"
type_synonym JobHandler = nat

record registry =
  eventHandlers :: "EventHandler list"
  jobHandlers :: "JobHandler list"

definition RegisterEventHandler :: "EventHandler \<Rightarrow> registry \<Rightarrow> registry" where
  "RegisterEventHandler h r = r\<lparr>eventHandlers := eventHandlers r @ [h]\<rparr>"

definition RegisterJobHandler :: "JobHandler \<Rightarrow> registry \<Rightarrow> registry" where
  "RegisterJobHandler h r = r\<lparr>jobHandlers := jobHandlers r @ [h]\<rparr>"

definition EventHandlers :: "registry \<Rightarrow> EventHandler list" where
  "EventHandlers r = eventHandlers r"

definition JobHandlers :: "registry \<Rightarrow> JobHandler list" where
  "JobHandlers r = jobHandlers r"

section \<open>HTTP messages to Jira\<close>

record http_request =
  hq_Method :: go_string
  hq_URL :: go_string
  hq_ContentType :: "go_string option"
  hq_BasicAuth :: "go_string \<times> go_string"
  hq_Body :: "go_string option"

record http_response =
  hr_StatusCode :: int
  hr_Body :: go_string

section \<open>Environment and world\<close>

text \<open>
  A database call goes through, is lost before it takes effect, or takes effect and is
  then reported as failed (a connection that breaks while the answer is on its way).
\<close>

datatype fault = NoFault | Lost go_string | Ambiguous go_string

record env =
  uuid_at :: "nat \<Rightarrow> go_string"
  clock_at :: "nat \<Rightarrow> instant"
  local_zone :: int
  fault_at :: "nat \<Rightarrow> fault"
  locked_at :: "nat \<Rightarrow> go_string list"
  http_at :: "nat \<Rightarrow> http_request \<Rightarrow> http_response result"
  url_valid :: "go_string \<Rightarrow> bool"
  jsonb_value :: "go_string \<Rightarrow> json"

datatype effect =
    EventHandlerCalled nat NormalizedEvent "go_error option"
  | JobHandlerCalled JobHandler Job "go_error option"
  | HttpSent http_request
  | EventInsertSent NormalizedEvent
  | JobInsertSent Job

record world =
  w_db :: db
  w_registry :: registry
  w_patterns :: pattern_cache
  w_trace :: "effect list"
  n_uuid :: nat
  n_clock :: nat
  n_db :: nat
  n_http :: nat

definition NewString :: "env \<Rightarrow> world \<Rightarrow> go_string \<times> world" where
  "NewString env w = (uuid_at env (n_uuid w), w\<lparr>n_uuid := Suc (n_uuid w)\<rparr>)"

definition Now :: "env \<Rightarrow> world \<Rightarrow> instant \<times> world" where
  "Now env w = (clock_at env (n_clock w), w\<lparr>n_clock := Suc (n_clock w)\<rparr>)"

definition emit :: "effect \<Rightarrow> world \<Rightarrow> world" where
  "emit x w = w\<lparr>w_trace := w_trace w @ [x]\<rparr>"

text \<open>
  One database statement that may change the tables: \<open>stmt\<close> gets the time of the
  database server and the tables, and gives an error or the new tables with a result.
\<close>

definition db_exec ::
    "env \<Rightarrow> (instant \<Rightarrow> db \<Rightarrow> (db \<times> 'a) result) \<Rightarrow> world \<Rightarrow> 'a result \<times> world" where
  "db_exec env stmt w =
     (let (now, w1) = Now env w;
          w2 = w1\<lparr>n_db := Suc (n_db w1)\<rparr>
      in case fault_at env (n_db w1) of
           Lost m \<Rightarrow> (Inl (Errorf m), w2)
         | Ambiguous m \<Rightarrow>
             (case stmt now (w_db w2) of
                Inl e \<Rightarrow> (Inl (Errorf m), w2)
              | Inr (d, x) \<Rightarrow> (Inl (Errorf m), w2\<lparr>w_db := d\<rparr>))
         | NoFault \<Rightarrow>
             (case stmt now (w_db w2) of
                Inl e \<Rightarrow> (Inl e, w2)
              | Inr (d, x) \<Rightarrow> (Inr x, w2\<lparr>w_db := d\<rparr>)))"

text \<open>A database call that only reads or only opens a transaction.\<close>

definition db_call :: "env \<Rightarrow> world \<Rightarrow> go_error option \<times> world" where
  "db_call env w =
     ((case fault_at env (n_db w) of
         NoFault \<Rightarrow> None | Lost m \<Rightarrow> Some (Errorf m) | Ambiguous m \<Rightarrow> Some (Errorf m)),
      w\<lparr>n_db := Suc (n_db w)\<rparr>)"

definition http_do :: "env \<Rightarrow> http_request \<Rightarrow> world \<Rightarrow> http_response result \<times> world" where
  "http_do env q w =
     (http_at env (n_http w) q, emit (HttpSent q) (w\<lparr>n_http := Suc (n_http w)\<rparr>))"

text \<open>\<open>fmt.Errorf\<close> with \<open>%w\<close> around the error of a call.\<close>

definition wrap_err :: "go_string \<Rightarrow> 'a result \<times> world \<Rightarrow> 'a result \<times> world" where
  "wrap_err m r = (case r of (Inl e, w) \<Rightarrow> (Inl (Wrap m e), w) | (Inr x, w) \<Rightarrow> (Inr x, w))"

section \<open>What an operation leaves alone\<close>

text \<open>
  Two worlds agree on everything but the tables, the trace and the call counters: the
  handlers and the compiled patterns.
\<close>

definition same_setup :: "world \<Rightarrow> world \<Rightarrow> bool" where
  "same_setup w w' = (w_registry w' = w_registry w \<and> w_patterns w' = w_patterns w)"

lemma same_setup_refl [simp]: "same_setup w w"
  by (simp add: same_setup_def)

lemma same_setup_trans [trans]: "same_setup u v \<Longrightarrow> same_setup v w \<Longrightarrow> same_setup u w"
  by (simp add: same_setup_def)

lemma NewString_simps [simp]:
  "fst (NewString env w) = uuid_at env (n_uuid w)"
  "w_db (snd (NewString env w)) = w_db w" "w_trace (snd (NewString env w)) = w_trace w"
  "same_setup w (snd (NewString env w))"
  by (simp_all add: NewString_def same_setup_def)

lemma Now_simps [simp]:
  "fst (Now env w) = clock_at env (n_clock w)"
  "w_db (snd (Now env w)) = w_db w" "w_trace (snd (Now env w)) = w_trace w"
  "same_setup w (snd (Now env w))" "n_db (snd (Now env w)) = n_db w"
  "n_uuid (snd (Now env w)) = n_uuid w"
  by (simp_all add: Now_def same_setup_def)

lemma db_exec_frame [simp]:
  "w_trace (snd (db_exec env stmt w)) = w_trace w" "same_setup w (snd (db_exec env stmt w))"
  "n_uuid (snd (db_exec env stmt w)) = n_uuid w" "n_http (snd (db_exec env stmt w)) = n_http w"
  by (auto simp: db_exec_def same_setup_def Now_def Let_def split: fault.splits sum.splits)

lemma db_call_frame [simp]:
  "w_db (snd (db_call env w)) = w_db w" "w_trace (snd (db_call env w)) = w_trace w"
  "same_setup w (snd (db_call env w))" "n_uuid (snd (db_call env w)) = n_uuid w"
  by (simp_all add: db_call_def same_setup_def)

lemma db_callD:
  "db_call env w = (x, w') \<Longrightarrow> w_db w' = w_db w \<and> w_trace w' = w_trace w \<and> same_setup w w' \<and>
    n_uuid w' = n_uuid w \<and> n_clock w' = n_clock w"
  by (auto simp: db_call_def same_setup_def)

lemma NowD:
  "Now env w = (t, w') \<Longrightarrow> t = clock_at env (n_clock w) \<and> w_db w' = w_db w \<and>
    w_trace w' = w_trace w \<and> same_setup w w' \<and> n_uuid w' = n_uuid w"
  by (auto simp: Now_def same_setup_def)

text \<open>
  The tables after a statement are the ones before it or the ones the statement makes,
  and a call that succeeds has made them.
\<close>

lemma db_exec_db:
  "w_db (snd (db_exec env stmt w)) = w_db w \<or>
    (\<exists>now d x. stmt now (w_db w) = Inr (d, x) \<and> w_db (snd (db_exec env stmt w)) = d)"
  by (auto simp: db_exec_def Now_def Let_def split: fault.splits sum.splits)

lemma db_exec_Inr:
  assumes "db_exec env stmt w = (Inr x, w')"
  shows "\<exists>now. stmt now (w_db w) = Inr (w_db w', x)"
  using assms by (auto simp: db_exec_def Now_def Let_def split: fault.splits sum.splits)

lemma db_exec_inv:
  assumes "P (w_db w)" "\<And>now d x. stmt now (w_db w) = Inr (d, x) \<Longrightarrow> P d"
  shows "P (w_db (snd (db_exec env stmt w)))"
  using db_exec_db [of env stmt w] assms by auto

section \<open>A quiet environment\<close>

text \<open>
  The environment and the world the examples start from: no faults, a clock that ticks, fresh
  identifiers, a Jira server that answers 204 to everything.
\<close>

definition sample_env :: env where
  "sample_env =
     \<lparr>uuid_at = (\<lambda>n. ''id-'' @ show_nat n), clock_at = (\<lambda>n. int n), local_zone = 0,
      fault_at = (\<lambda>n. NoFault), locked_at = (\<lambda>n. []),
      http_at = (\<lambda>n q. Inr \<lparr>hr_StatusCode = 204, hr_Body = ''''\<rparr>), url_valid = (\<lambda>u. True),
      jsonb_value = (\<lambda>s. case json_parse s of None \<Rightarrow> JNull | Some v \<Rightarrow> v)\<rparr>"

definition empty_world :: world where
  "empty_world =
     \<lparr>w_db = empty_db, w_registry = \<lparr>eventHandlers = [], jobHandlers = []\<rparr>,
      w_patterns = Map.empty, w_trace = [], n_uuid = 0, n_clock = 0, n_db = 0, n_http = 0\<rparr>"

lemma sample_env_simps [simp]:
  "uuid_at sample_env n = ''id-'' @ show_nat n" "clock_at sample_env n = int n"
  "local_zone sample_env = 0" "fault_at sample_env n = NoFault" "locked_at sample_env n = []"
  "http_at sample_env n q = Inr \<lparr>hr_StatusCode = 204, hr_Body = ''''\<rparr>"
  "url_valid sample_env u"
  by (simp_all add: sample_env_def)

lemma empty_world_simps [simp]:
  "w_db empty_world = empty_db" "w_patterns empty_world = Map.empty" "n_uuid empty_world = 0"
  "n_clock empty_world = 0" "n_db empty_world = 0" "w_trace empty_world = []"
  "w_registry empty_world = \<lparr>eventHandlers = [], jobHandlers = []\<rparr>"
  by (simp_all add: empty_world_def)

lemma sample_ids_inj: "inj (uuid_at sample_env)"
  by (auto simp: inj_on_def dest: show_nat_inj)

section \<open>Properties\<close>

text \<open>
  Plugins are called in registration order: a handler registered later comes after all
  that were registered before, and registering an event handler leaves the job handlers alone.
\<close>

lemma registration_order:
  "EventHandlers (fold RegisterEventHandler hs r) = EventHandlers r @ hs \<and>
   JobHandlers (fold RegisterEventHandler hs r) = JobHandlers r \<and>
   JobHandlers (fold RegisterJobHandler js r) = JobHandlers r @ js \<and>
   EventHandlers (fold RegisterJobHandler js r) = EventHandlers r"
proof -
  have "EventHandlers (fold RegisterEventHandler hs r) = EventHandlers r @ hs \<and>
      JobHandlers (fold RegisterEventHandler hs r) = JobHandlers r"
    by (induction hs arbitrary: r)
      (simp_all add: EventHandlers_def JobHandlers_def RegisterEventHandler_def)
  moreover have "JobHandlers (fold RegisterJobHandler js r) = JobHandlers r @ js \<and>
      EventHandlers (fold RegisterJobHandler js r) = EventHandlers r"
    by (induction js arbitrary: r)
      (simp_all add: EventHandlers_def JobHandlers_def RegisterJobHandler_def)
  ultimately show ?thesis by blast
qed

end
