(* ===== verification/Store.thy ===== *)
theory Store
  imports World
begin

text \<open>
  \<open>internal/store\<close>: the event, job and audit repositories. Each method runs its
  statement on the tables through the database call of \<open>World\<close> and wraps the error of a
  failed call in the method's message.
\<close>

section \<open>event_repo.go\<close>

definition event_Insert :: "env \<Rightarrow> NormalizedEvent \<Rightarrow> world \<Rightarrow> unit result \<times> world" where
  "event_Insert env e w =
     wrap_err ''insert event''
       (db_exec env (\<lambda>now d. map_sum id (\<lambda>d'. (d', ())) (sql_insert_event e d))
          (emit (EventInsertSent e) w))"

definition ExistsByIdempotencyKey :: "env \<Rightarrow> go_string \<Rightarrow> world \<Rightarrow> bool result \<times> world" where
  "ExistsByIdempotencyKey env key w =
     (case db_call env w of
        (Some e, w1) \<Rightarrow> (Inl (Wrap ''check idempotency key'' e), w1)
      | (None, w1) \<Rightarrow>
          if text_ok key then (Inr (has_event_key (w_db w1) key), w1)
          else (Inl (Wrap ''check idempotency key'' (Errorf ''invalid byte sequence for encoding'')), w1))"

definition GetByID :: "env \<Rightarrow> go_string \<Rightarrow> world \<Rightarrow> NormalizedEvent result \<times> world" where
  "GetByID env i w =
     (case db_call env w of
        (Some e, w1) \<Rightarrow> (Inl (Wrap ''query event by id'' e), w1)
      | (None, w1) \<Rightarrow>
          (case db_call env w1 of
             (Some e, w2) \<Rightarrow> (Inl (Wrap ''scan event'' e), w2)
           | (None, w2) \<Rightarrow>
               (case sql_event_by_id i (w_db w2) of
                  None \<Rightarrow> (Inl (Wrap ''scan event'' (Errorf ''no rows in result set'')), w2)
                | Some e \<Rightarrow> (Inr e, w2))))"

definition ListRecent :: "env \<Rightarrow> int \<Rightarrow> world \<Rightarrow> NormalizedEvent list result \<times> world" where
  "ListRecent env limit w =
     (case db_call env w of
        (Some e, w1) \<Rightarrow> (Inl (Wrap ''list recent events'' e), w1)
      | (None, w1) \<Rightarrow>
          (case db_call env w1 of
             (Some e, w2) \<Rightarrow> (Inl (Wrap ''scan events'' e), w2)
           | (None, w2) \<Rightarrow>
               if limit < 0
               then (Inl (Wrap ''scan events'' (Errorf ''LIMIT must not be negative'')), w2)
               else (Inr (sql_list_recent (nat limit) (w_db w2)), w2)))"

section \<open>job_repo.go\<close>

definition Enqueue :: "env \<Rightarrow> Job \<Rightarrow> world \<Rightarrow> unit result \<times> world" where
  "Enqueue env j w =
     wrap_err ''enqueue job''
       (db_exec env (\<lambda>now d. map_sum id (\<lambda>d'. (d', ())) (sql_insert_job j d))
          (emit (JobInsertSent j) w))"

text \<open>
  The claim runs in one transaction: begin, select and lock, read the rows, mark them
  running, commit. The rows are returned as they were selected. A transaction without a
  commit changes nothing; \<open>now()\<close> is the time the transaction began.
\<close>

definition Dequeue :: "env \<Rightarrow> int \<Rightarrow> world \<Rightarrow> Job list result \<times> world" where
  "Dequeue env batchSize w =
     (case db_call env w of
        (Some e, w1) \<Rightarrow> (Inl (Wrap ''begin dequeue tx'' e), w1)
      | (None, w1) \<Rightarrow>
     (case Now env w1 of (now, w2) \<Rightarrow>
     (case db_call env w2 of
        (Some e, w3) \<Rightarrow> (Inl (Wrap ''dequeue jobs'' e), w3)
      | (None, w3) \<Rightarrow>
     (case db_call env w3 of
        (Some e, w4) \<Rightarrow> (Inl (Wrap ''scan dequeued jobs'' e), w4)
      | (None, w4) \<Rightarrow>
          if batchSize < 0
          then (Inl (Wrap ''scan dequeued jobs'' (Errorf ''LIMIT must not be negative'')), w4)
          else
            let rows = sql_select_due now (locked_at env (n_db w4)) (nat batchSize) (w_db w4);
                js = map job_of rows; ids = map job_ID js
            in if length js = 0 then (Inr js, w4)
               else
     (case db_call env w4 of
        (Some e, w5) \<Rightarrow> (Inl (Wrap ''mark jobs running'' e), w5)
      | (None, w5) \<Rightarrow>
     (case fault_at env (n_db w5) of
        NoFault \<Rightarrow>
          (Inr js, w5\<lparr>n_db := Suc (n_db w5), w_db := sql_claim now ids (w_db w5)\<rparr>)
      | Lost m \<Rightarrow>
          (Inl (Wrap ''commit dequeue tx'' (Errorf m)), w5\<lparr>n_db := Suc (n_db w5)\<rparr>)
      | Ambiguous m \<Rightarrow>
          (Inl (Wrap ''commit dequeue tx'' (Errorf m)),
           w5\<lparr>n_db := Suc (n_db w5), w_db := sql_claim now ids (w_db w5)\<rparr>)))))))"

definition MarkCompleted :: "env \<Rightarrow> go_string \<Rightarrow> world \<Rightarrow> unit result \<times> world" where
  "MarkCompleted env i w =
     wrap_err ''mark job completed''
       (db_exec env (\<lambda>now d. Inr (sql_mark_completed i now d, ())) w)"

definition MarkFailed :: "env \<Rightarrow> go_string \<Rightarrow> go_string \<Rightarrow> instant \<Rightarrow> world \<Rightarrow> unit result \<times> world" where
  "MarkFailed env i errMsg nextRunAt w =
     wrap_err ''mark job failed''
       (db_exec env (\<lambda>now d. with_text errMsg (sql_mark_failed i errMsg nextRunAt d)) w)"

definition MarkDead :: "env \<Rightarrow> go_string \<Rightarrow> go_string \<Rightarrow> world \<Rightarrow> unit result \<times> world" where
  "MarkDead env i errMsg w =
     wrap_err ''mark job dead''
       (db_exec env (\<lambda>now d. with_text errMsg (sql_mark_dead i errMsg d)) w)"

definition ListFailed :: "env \<Rightarrow> int \<Rightarrow> world \<Rightarrow> Job list result \<times> world" where
  "ListFailed env limit w =
     (let limit' = (if limit \<le> 0 \<or> limit > 1000 then 200 else limit) in
      case db_call env w of
        (Some e, w1) \<Rightarrow> (Inl (Wrap ''list failed jobs'' e), w1)
      | (None, w1) \<Rightarrow>
          (case db_call env w1 of
             (Some e, w2) \<Rightarrow> (Inl e, w2)
           | (None, w2) \<Rightarrow> (Inr (map job_of (sql_list_failed (nat limit') (w_db w2))), w2)))"

definition ListStale :: "env \<Rightarrow> duration \<Rightarrow> world \<Rightarrow> Job list result \<times> world" where
  "ListStale env olderThan w =
     (case Now env w of (now, w0) \<Rightarrow>
     (case db_call env w0 of
        (Some e, w1) \<Rightarrow> (Inl (Wrap ''list stale jobs'' e), w1)
      | (None, w1) \<Rightarrow>
          (case db_call env w1 of
             (Some e, w2) \<Rightarrow> (Inl e, w2)
           | (None, w2) \<Rightarrow> (Inr (map job_of (sql_list_stale (timestamptz (now - olderThan)) (w_db w2))), w2))))"

definition ResetStuck :: "env \<Rightarrow> duration \<Rightarrow> world \<Rightarrow> int result \<times> world" where
  "ResetStuck env olderThan w =
     (case Now env w of (cutoff_now, w0) \<Rightarrow>
        wrap_err ''reset stuck jobs''
          (db_exec env (\<lambda>now d. Inr (sql_reset_stuck (timestamptz (cutoff_now - olderThan)) now d)) w0))"

section \<open>audit_repo.go\<close>

definition audit_Insert :: "env \<Rightarrow> AuditEntry \<Rightarrow> world \<Rightarrow> unit result \<times> world" where
  "audit_Insert env e w =
     wrap_err ''insert audit log''
       (db_exec env (\<lambda>now d. map_sum id (\<lambda>d'. (d', ())) (sql_insert_audit e d)) w)"

section \<open>Contracts\<close>

text \<open>
  A log of keyed entries, as the webhook handler relies on it: a successful insert adds
  the entry's key and nothing else, a failed one adds at most that key, and no key is
  ever lost.
\<close>

locale idempotent_log =
  fixes insert_entry :: "'e \<Rightarrow> 's \<Rightarrow> 'a result \<times> 's"
    and entry_key :: "'e \<Rightarrow> 'k"
    and seen :: "'s \<Rightarrow> 'k \<Rightarrow> bool"
  assumes insert_ok: "insert_entry e s = (Inr x, s') \<Longrightarrow> seen s' k \<longleftrightarrow> seen s k \<or> k = entry_key e"
    and insert_lost: "insert_entry e s = (Inl err, s') \<Longrightarrow> seen s k \<Longrightarrow> seen s' k"
    and insert_bound: "insert_entry e s = (Inl err, s') \<Longrightarrow> seen s' k \<Longrightarrow> seen s k \<or> k = entry_key e"
begin

lemma insert_keeps: "seen s k \<Longrightarrow> seen (snd (insert_entry e s)) k"
  using insert_ok insert_lost
  by (cases "insert_entry e s"; cases "fst (insert_entry e s)") auto

lemma insert_adds_at_most: "seen (snd (insert_entry e s)) k \<Longrightarrow> seen s k \<or> k = entry_key e"
  using insert_ok insert_bound
  by (cases "insert_entry e s"; cases "fst (insert_entry e s)") auto

lemma inserts_keep: "seen s k \<Longrightarrow> seen (fold (\<lambda>e s. snd (insert_entry e s)) es s) k"
  by (induction es arbitrary: s) (auto intro: insert_keeps)

lemma inserts_add_at_most:
  "seen (fold (\<lambda>e s. snd (insert_entry e s)) es s) k \<Longrightarrow> seen s k \<or> k \<in> entry_key ` set es"
proof (induction es arbitrary: s)
  case (Cons e es)
  then show ?case using insert_adds_at_most [of e s k] by auto
qed simp

end

text \<open>
  A table of rows found by identifier, changed by conditional updates of its rows.
\<close>

locale row_table =
  fixes lookup :: "'s \<Rightarrow> 'i \<Rightarrow> 'r option"
    and update :: "('r \<Rightarrow> bool) \<Rightarrow> ('r \<Rightarrow> 'r) \<Rightarrow> 's \<Rightarrow> 's"
    and keeps :: "('r \<Rightarrow> 'r) \<Rightarrow> bool"
  assumes lookup_update:
    "keeps f \<Longrightarrow> lookup (update P f s) i = map_option (\<lambda>r. if P r then f r else r) (lookup s i)"
begin

lemma lookup_hit: "keeps f \<Longrightarrow> lookup s i = Some r \<Longrightarrow> P r \<Longrightarrow> lookup (update P f s) i = Some (f r)"
  by (simp add: lookup_update)

lemma lookup_miss: "keeps f \<Longrightarrow> lookup s i = Some r \<Longrightarrow> \<not> P r \<Longrightarrow> lookup (update P f s) i = Some r"
  by (simp add: lookup_update)

text \<open>A property of rows that every update function keeps holds after any updates.\<close>

lemma updates_keep:
  assumes "\<forall>(P, f) \<in> set us. keeps f \<and> (\<forall>r. Q r \<longrightarrow> Q (f r))" "lookup s i = Some r" "Q r"
  shows "\<exists>r'. lookup (fold (\<lambda>(P, f). update P f) us s) i = Some r' \<and> Q r'"
  using assms
proof (induction us arbitrary: s r)
  case (Cons u us)
  obtain P f where u: "u = (P, f)" by fastforce
  with Cons.prems have "lookup (update P f s) i = Some (if P r then f r else r)"
    "Q (if P r then f r else r)"
    by (auto simp: lookup_update)
  with Cons.IH [of "update P f s"] Cons.prems(1) u show ?case by auto
qed simp

end

text \<open>
  A queue whose rows are claimed in batches: what is selected can be claimed, claiming
  puts exactly the selected rows into a state that cannot be claimed again.
\<close>

locale claim_queue = row_table +
  fixes select :: "'t \<Rightarrow> 'l \<Rightarrow> nat \<Rightarrow> 's \<Rightarrow> 'i list"
    and claim :: "'t \<Rightarrow> 'i list \<Rightarrow> 's \<Rightarrow> 's"
    and claimable :: "'t \<Rightarrow> 'r \<Rightarrow> bool"
    and run :: "'t \<Rightarrow> 'r \<Rightarrow> 'r"
  assumes selected: "i \<in> set (select t l n s) \<Longrightarrow> \<exists>r. lookup s i = Some r \<and> claimable t r"
    and claimed: "lookup (claim t is s) i =
      (if i \<in> set is then map_option (run t) (lookup s i) else lookup s i)"
    and not_again: "\<not> claimable t' (run t r)"
begin

lemma claims_disjoint:
  "set (select t l n s) \<inter> set (select t' l' n' (claim t (select t l n s) s)) = {}"
  using selected [of _ t' l' n' "claim t (select t l n s) s"] claimed not_again by fastforce

end

section \<open>The model meets the contracts\<close>

lemma wrap_err_Inr [simp]: "wrap_err m r = (Inr x, w) \<longleftrightarrow> r = (Inr x, w)"
  by (auto simp: wrap_err_def split: prod.splits sum.splits)

lemma snd_wrap_err [simp]: "snd (wrap_err m r) = snd r"
  by (auto simp: wrap_err_def split: prod.splits sum.splits)

lemma emit_simps [simp]:
  "w_db (emit x w) = w_db w" "w_trace (emit x w) = w_trace w @ [x]" "same_setup w (emit x w)"
  "n_uuid (emit x w) = n_uuid w" "n_db (emit x w) = n_db w" "n_http (emit x w) = n_http w"
  by (simp_all add: emit_def same_setup_def)

lemma event_Insert_db:
  "w_db (snd (event_Insert env e w)) = w_db w \<or>
    sql_insert_event e (w_db w) = Inr (w_db (snd (event_Insert env e w)))"
  using db_exec_db [of env "\<lambda>now d. map_sum id (\<lambda>d'. (d', ())) (sql_insert_event e d)"
      "emit (EventInsertSent e) w"]
  by (cases "sql_insert_event e (w_db w)") (auto simp: event_Insert_def)

lemma event_Insert_Inr:
  assumes "event_Insert env e w = (Inr u, w')"
  shows "sql_insert_event e (w_db w) = Inr (w_db w')"
  using db_exec_Inr [of env "\<lambda>now d. map_sum id (\<lambda>d'. (d', ())) (sql_insert_event e d)"
      "emit (EventInsertSent e) w" u w'] assms
  by (cases "sql_insert_event e (w_db w)") (auto simp: event_Insert_def)

lemma has_event_key_insert:
  assumes "sql_insert_event e d = Inr d'"
  shows "has_event_key d' k \<longleftrightarrow> has_event_key d k \<or> k = IdempotencyKey e"
  using assms by (cases rule: insert_event_cases) (auto simp: has_event_key_def)

interpretation event_log: idempotent_log "event_Insert env" IdempotencyKey
  "\<lambda>w. has_event_key (w_db w)" for env
proof
  fix e s x s' k
  assume "event_Insert env e s = (Inr x, s')"
  from has_event_key_insert [OF event_Insert_Inr [OF this]]
  show "has_event_key (w_db s') k \<longleftrightarrow> has_event_key (w_db s) k \<or> k = IdempotencyKey e" .
next
  fix e s err s' k
  assume eq: "event_Insert env e s = (Inl err, s')"
  from event_Insert_db [of env e s] has_event_key_insert [of e "w_db s" "w_db s'" k]
  show "has_event_key (w_db s) k \<Longrightarrow> has_event_key (w_db s') k"
    "has_event_key (w_db s') k \<Longrightarrow> has_event_key (w_db s) k \<or> k = IdempotencyKey e"
    by (auto simp: eq)
qed

lemma set_select_due:
  "r \<in> set (sql_select_due now locked n d) \<Longrightarrow> r \<in> set (jobs d) \<and> due now r \<and> job_ID r \<notin> set locked"
  by (auto simp: sql_select_due_def dest!: in_set_takeD)

lemma select_due_bounds:
  "length (sql_select_due now locked n d) \<le> n"
  "sorted (map NextRunAt (sql_select_due now locked n d))"
  by (simp_all add: sql_select_due_def take_map [symmetric] sorted_wrt_take)

lemma distinct_select_due:
  assumes "distinct (map job_ID (jobs d))"
  shows "distinct (map job_ID (sql_select_due now locked n d))"
proof -
  have "distinct (map job_ID (sort_key NextRunAt (filter P (jobs d))))" for P
    using assms by (simp add: distinct_map inj_on_def)
  then show ?thesis by (simp add: sql_select_due_def take_map [symmetric])
qed

text \<open>The first row with an identifier decides what the queue may claim.\<close>

definition select_ids :: "instant \<Rightarrow> go_string list \<Rightarrow> nat \<Rightarrow> db \<Rightarrow> go_string list" where
  "select_ids now locked n d =
     filter (\<lambda>i. pred_option (due now) (job_lookup d i) \<and> has_job_id d i)
       (map job_ID (sql_select_due now locked n d))"

lemma select_ids_eq:
  assumes "distinct (map job_ID (jobs d))"
  shows "select_ids now locked n d = map job_ID (sql_select_due now locked n d)"
proof -
  have "pred_option (due now) (job_lookup d (job_ID r)) \<and> has_job_id d (job_ID r)"
    if "r \<in> set (sql_select_due now locked n d)" for r
    using set_select_due [OF that] job_lookup_in [OF assms, of r] by (auto simp: has_job_id_def)
  then show ?thesis unfolding select_ids_def by (intro filter_True) auto
qed

lemma job_lookup_claim:
  "job_lookup (sql_claim now ids d) i =
    (if i \<in> set ids then map_option (claim_row now) (job_lookup d i) else job_lookup d i)"
  by (cases "job_lookup d i") (auto simp: sql_claim_def job_lookup_update dest: job_lookup_Some)

interpretation jq: claim_queue job_lookup update_jobs keeps_row select_ids sql_claim due claim_row
proof
  show "\<exists>r. job_lookup s i = Some r \<and> due t r" if "i \<in> set (select_ids t l n s)" for i t l n s
    using that job_lookup_None_iff [of s i] by (cases "job_lookup s i") (auto simp: select_ids_def)
qed (simp_all add: job_lookup_update job_lookup_claim due_def claim_row_def)

section \<open>What each method leaves\<close>

text \<open>
  No method touches the handlers, the compiled patterns or the identifiers drawn so far;
  only an insert of an event or a job is recorded in the trace.
\<close>

lemma repo_setup [simp]:
  "same_setup w (snd (event_Insert env e w))" "same_setup w (snd (Enqueue env j w))"
  "same_setup w (snd (ExistsByIdempotencyKey env k w))"
  "same_setup w (snd (MarkCompleted env i w))" "same_setup w (snd (MarkFailed env i m t w))"
  "same_setup w (snd (MarkDead env i m w))" "same_setup w (snd (audit_Insert env a w))"
  by (auto simp: event_Insert_def Enqueue_def MarkCompleted_def MarkFailed_def MarkDead_def
      audit_Insert_def ExistsByIdempotencyKey_def split: prod.splits option.splits if_splits
      intro: same_setup_trans [OF emit_simps(3) db_exec_frame(2)] dest: db_callD)

lemma repo_trace [simp]:
  "w_trace (snd (event_Insert env e w)) = w_trace w @ [EventInsertSent e]"
  "w_trace (snd (Enqueue env j w)) = w_trace w @ [JobInsertSent j]"
  "w_trace (snd (ExistsByIdempotencyKey env k w)) = w_trace w"
  "w_trace (snd (MarkCompleted env i w)) = w_trace w"
  "w_trace (snd (MarkFailed env i m t w)) = w_trace w"
  "w_trace (snd (MarkDead env i m w)) = w_trace w"
  "w_trace (snd (audit_Insert env a w)) = w_trace w"
  "w_trace (snd (ResetStuck env d w)) = w_trace w"
  by (auto simp: event_Insert_def Enqueue_def MarkCompleted_def MarkFailed_def MarkDead_def
      audit_Insert_def ExistsByIdempotencyKey_def ResetStuck_def
      split: prod.splits option.splits if_splits
      dest: db_callD NowD)

lemma repo_n_uuid [simp]:
  "n_uuid (snd (event_Insert env e w)) = n_uuid w" "n_uuid (snd (Enqueue env j w)) = n_uuid w"
  "n_uuid (snd (MarkCompleted env i w)) = n_uuid w" "n_uuid (snd (MarkDead env i m w)) = n_uuid w"
  "n_uuid (snd (MarkFailed env i m t w)) = n_uuid w" "n_uuid (snd (audit_Insert env a w)) = n_uuid w"
  by (simp_all add: event_Insert_def Enqueue_def MarkCompleted_def MarkFailed_def MarkDead_def
      audit_Insert_def)

lemma ExistsByIdempotencyKey_db [simp]:
  "w_db (snd (ExistsByIdempotencyKey env k w)) = w_db w"
  by (auto simp: ExistsByIdempotencyKey_def split: prod.splits option.splits if_splits dest: db_callD)

lemma ExistsByIdempotencyKey_Inr:
  "ExistsByIdempotencyKey env k w = (Inr b, w') \<Longrightarrow> b = has_event_key (w_db w) k \<and> w_db w' = w_db w"
  by (auto simp: ExistsByIdempotencyKey_def split: prod.splits option.splits if_splits dest: db_callD)

lemma ExistsByIdempotencyKeyD:
  "ExistsByIdempotencyKey env k w = (r, w') \<Longrightarrow> w_db w' = w_db w \<and> w_trace w' = w_trace w \<and>
    same_setup w w' \<and> n_uuid w' = n_uuid w"
  by (auto simp: ExistsByIdempotencyKey_def split: prod.splits option.splits if_splits dest: db_callD)

text \<open>Each method's tables are the old ones or those of its statement.\<close>

lemma mark_db:
  "w_db (snd (MarkCompleted env i w)) = w_db w \<or>
    (\<exists>now. w_db (snd (MarkCompleted env i w)) = sql_mark_completed i now (w_db w))"
  "w_db (snd (MarkFailed env i m t w)) \<in> {w_db w, sql_mark_failed i m t (w_db w)}"
  "w_db (snd (MarkDead env i m w)) \<in> {w_db w, sql_mark_dead i m (w_db w)}"
  using db_exec_db [of env "\<lambda>now d. Inr (sql_mark_completed i now d, ())" w]
    db_exec_db [of env "\<lambda>now d. with_text m (sql_mark_failed i m t d)" w]
    db_exec_db [of env "\<lambda>now d. with_text m (sql_mark_dead i m d)" w]
  by (auto simp: MarkCompleted_def MarkFailed_def MarkDead_def with_text_def split: if_splits)

lemma mark_Inr:
  "MarkCompleted env i w = (Inr u, w') \<Longrightarrow> \<exists>now. sql_mark_completed i now (w_db w) = w_db w'"
  "MarkFailed env i m t w = (Inr u, w') \<Longrightarrow> w_db w' = sql_mark_failed i m t (w_db w)"
  "MarkDead env i m w = (Inr u, w') \<Longrightarrow> w_db w' = sql_mark_dead i m (w_db w)"
  by (auto simp: MarkCompleted_def MarkFailed_def MarkDead_def with_text_def dest!: db_exec_Inr
      split: if_splits)

lemma Enqueue_db:
  "w_db (snd (Enqueue env j w)) = w_db w \<or> sql_insert_job j (w_db w) = Inr (w_db (snd (Enqueue env j w)))"
  using db_exec_db [of env "\<lambda>now d. map_sum id (\<lambda>d'. (d', ())) (sql_insert_job j d)"
      "emit (JobInsertSent j) w"]
  by (cases "sql_insert_job j (w_db w)") (auto simp: Enqueue_def)

lemma audit_Insert_db:
  "w_db (snd (audit_Insert env e w)) = w_db w \<or>
    sql_insert_audit e (w_db w) = Inr (w_db (snd (audit_Insert env e w)))"
  using db_exec_db [of env "\<lambda>now d. map_sum id (\<lambda>d'. (d', ())) (sql_insert_audit e d)" w]
  by (cases "sql_insert_audit e (w_db w)") (auto simp: audit_Insert_def)

lemma audit_Insert_frame [simp]:
  "events (w_db (snd (audit_Insert env e w))) = events (w_db w)"
  "jobs (w_db (snd (audit_Insert env e w))) = jobs (w_db w)"
  using audit_Insert_db [of env e w] by (auto dest: insert_audit_Inr)

lemma ResetStuck_db:
  "w_db (snd (ResetStuck env d w)) = w_db w \<or>
    (\<exists>now. w_db (snd (ResetStuck env d w)) =
      fst (sql_reset_stuck (timestamptz (clock_at env (n_clock w) - d)) now (w_db w)))"
  using db_exec_db [of env "\<lambda>now x. Inr (sql_reset_stuck (timestamptz (clock_at env (n_clock w) - d)) now x)"
      "snd (Now env w)"]
  by (auto simp: ResetStuck_def split_beta prod_eq_iff)

text \<open>The jobs a call claims: those due by the clock, without the rows others hold.\<close>

definition batch_of :: "env \<Rightarrow> int \<Rightarrow> world \<Rightarrow> JobRow list" where
  "batch_of env n w =
     sql_select_due (clock_at env (n_clock w)) (locked_at env (n_db w + 3)) (nat n) (w_db w)"

definition claimed_db :: "env \<Rightarrow> int \<Rightarrow> world \<Rightarrow> db" where
  "claimed_db env n w =
     sql_claim (clock_at env (n_clock w)) (map job_ID (batch_of env n w)) (w_db w)"

lemma Dequeue_db: "w_db (snd (Dequeue env n w)) \<in> {w_db w, claimed_db env n w}"
  by (auto simp: Dequeue_def db_call_def Now_def Let_def comp_def claimed_db_def batch_of_def
      numeral_3_eq_3 split: fault.splits if_splits)

lemma Dequeue_Inr:
  assumes "Dequeue env n w = (Inr js, w')"
  shows "js = map job_of (batch_of env n w) \<and> w_db w' = claimed_db env n w"
  using assms
  by (auto simp: Dequeue_def db_call_def Now_def Let_def comp_def claimed_db_def batch_of_def
      numeral_3_eq_3 sql_claim_def update_jobs_def split: fault.splits if_splits)

text \<open>Every method keeps the tables well formed.\<close>

lemma repo_db_inv:
  assumes "db_inv (w_db w)"
  shows "db_inv (w_db (snd (event_Insert env e w)))"
    "job_Status j = JobPending \<Longrightarrow> db_inv (w_db (snd (Enqueue env j w)))"
    "db_inv (w_db (snd (Dequeue env n w)))"
    "db_inv (w_db (snd (MarkCompleted env i w)))" "db_inv (w_db (snd (MarkFailed env i m t w)))"
    "db_inv (w_db (snd (MarkDead env i m w)))" "db_inv (w_db (snd (ResetStuck env d w)))"
    "db_inv (w_db (snd (audit_Insert env a w)))"
  subgoal using event_Insert_db [of env e w] assms by (auto dest: db_inv_insert_event)
  subgoal using Enqueue_db [of env j w] assms by (auto dest: db_inv_insert_job)
  subgoal using Dequeue_db [of env n w] assms by (auto simp: claimed_db_def db_inv_updates)
  subgoal using mark_db(1) [of env i w] db_inv_updates [OF assms] assms by auto
  subgoal using mark_db(2) [of env i m t w] db_inv_updates [OF assms] assms by auto
  subgoal using mark_db(3) [of env i m w] db_inv_updates [OF assms] assms by auto
  subgoal using ResetStuck_db [of env d w] db_inv_updates [OF assms] assms by auto
  subgoal using audit_Insert_db [of env a w] assms by (auto dest: db_inv_insert_audit)
  done

section \<open>Properties\<close>


definition one_job_world :: world where
  "one_job_world = empty_world\<lparr>w_db := \<lparr>
     events = [zero_event\<lparr>ev_ID := ''e'', IdempotencyKey := ''k''\<rparr>],
     jobs = [job_row \<lparr>job_ID = ''j'', job_EventID = ''e'', job_Type = JobJiraTransition,
       job_Status = JobPending, job_IssueKey = ''RIS-1'', TargetState = StateDone,
       job_Payload = ''{}'', Attempts = 0, MaxAttempts = 5, LastError = '''', NextRunAt = 0,
       job_CreatedAt = 0, CompletedAt = None\<rparr>],
     audit_logs = []\<rparr>\<rparr>"

lemma one_job_world_inv [simp]: "db_inv (w_db one_job_world)"
  by (simp add: one_job_world_def db_inv_def has_event_id_def JobStatus_of_def)


text \<open>
  Two claims one after the other, by any two workers, never return the same job.
\<close>

lemma claims_never_overlap:
  assumes "Dequeue env n w = (Inr js, w')" "Dequeue env' n' w' = (Inr js', w'')" "db_inv (w_db w)"
  shows "set (map job_ID js) \<inter> set (map job_ID js') = {}"
proof -
  note d = Dequeue_Inr [OF assms(1)] and d' = Dequeue_Inr [OF assms(2)]
  have inv': "db_inv (w_db w')"
    using repo_db_inv(3) [OF assms(3), of env n] assms(1) by simp
  let ?t = "clock_at env (n_clock w)" and ?l = "locked_at env (n_db w + 3)"
  let ?t' = "clock_at env' (n_clock w')" and ?l' = "locked_at env' (n_db w' + 3)"
  have "map job_ID js = select_ids ?t ?l (nat n) (w_db w)"
    "map job_ID js' = select_ids ?t' ?l' (nat n') (w_db w')"
    using d d' assms(3) inv' by (simp_all add: select_ids_eq db_inv_def batch_of_def comp_def)
  moreover have "w_db w' = sql_claim ?t (select_ids ?t ?l (nat n) (w_db w)) (w_db w)"
    using d assms(3) by (simp add: select_ids_eq db_inv_def batch_of_def claimed_db_def)
  ultimately show ?thesis
    using jq.claims_disjoint [of ?t ?l "nat n" "w_db w" ?t' ?l' "nat n'"] by simp
qed




definition sample_event :: NormalizedEvent where
  "sample_event = zero_event\<lparr>ev_ID := ''x'', ev_Type := EventPush, IssueKeys_of := [''RIS-1''],
     RawPayload := ''{}''\<rparr>"


end
