(* ===== verification/Go_Float.thy ===== *)
theory Go_Float
  imports Complex_Main Prelude "HOL-Library.Log_Nat"
begin

text \<open>
  IEEE 754 double precision as far as the program uses it: the finite values as rational
  numbers, the rounding of a rational to the nearest double (ties to even), and the value
  of a JSON number literal as \<open>strconv.ParseFloat\<close> gives it, an overflow being an
  error. The two zeros are one value.
\<close>

definition pow2 :: "int \<Rightarrow> rat" where
  "pow2 e = (if 0 \<le> e then 2 ^ nat e else 1 / 2 ^ nat (- e))"

text \<open>\<open>log2_floor x\<close> for positive \<open>x\<close>: the integer part of its binary logarithm.\<close>

definition log2_floor :: "rat \<Rightarrow> int" where
  "log2_floor x =
     (let (p, q) = quotient_of x; k = bitlen p - bitlen q
      in if pow2 k \<le> x then k else k - 1)"

definition round_even :: "rat \<Rightarrow> int" where
  "round_even x =
     (let n = \<lfloor>x\<rfloor>; f = x - of_int n
      in if f < 1 / 2 then n else if f > 1 / 2 then n + 1
         else if even n then n else n + 1)"

text \<open>53 bits of precision, exponents from -1074 on, values below 2 to the 1024.\<close>

definition float64_of_rat :: "rat \<Rightarrow> rat option" where
  "float64_of_rat x =
     (if x = 0 then Some 0
      else
        let a = \<bar>x\<bar>;
            e = max (log2_floor a - 52) (- 1074);
            r = of_int (round_even (a * pow2 (- e))) * pow2 e
        in if pow2 1024 \<le> r then None else Some (if x < 0 then - r else r))"

definition is_exp_mark :: "char \<Rightarrow> bool" where
  "is_exp_mark c = (c = CHR ''e'' \<or> c = CHR ''E'')"

text \<open>The value of a literal that the JSON grammar admits.\<close>

definition literal_value :: "go_string \<Rightarrow> rat" where
  "literal_value lit =
     (let neg = HasPrefix lit ''-''; s = (if neg then tl lit else lit);
          mant = takeWhile (\<lambda>c. \<not> is_exp_mark c) s;
          ex = tl (dropWhile (\<lambda>c. \<not> is_exp_mark c) s);
          whole = takeWhile is_digit mant; frac = tl (dropWhile is_digit mant);
          m = of_nat (digits_value 0 (whole @ frac)) / 10 ^ length frac;
          eneg = HasPrefix ex ''-'';
          k = digits_value 0 (if eneg \<or> HasPrefix ex ''+'' then tl ex else ex);
          v = (if eneg then m / 10 ^ k else m * 10 ^ k)
      in if neg then - v else v)"

definition ParseFloat :: "go_string \<Rightarrow> rat option" where
  "ParseFloat lit = float64_of_rat (literal_value lit)"

section \<open>Small integers are exact\<close>

lemma round_even_of_int [simp]: "round_even (of_int n) = n"
  by (simp add: round_even_def)

lemma pow2_pos [simp]: "0 < pow2 e"
  by (simp add: pow2_def)

lemma pow2_minus: "pow2 (- e) * pow2 e = 1"
  by (cases "e = 0") (auto simp: pow2_def)

lemma literal_value_show_nat: "literal_value (show_nat n) = of_nat n"
proof -
  have d: "\<forall>c \<in> set (show_nat n). is_digit c \<and> \<not> is_exp_mark c" and ne: "show_nat n \<noteq> []"
    using show_nat_digits [of n] by (auto simp: list_all_iff is_digit_def is_exp_mark_def)
  then have t: "takeWhile (\<lambda>c. \<not> is_exp_mark c) (show_nat n) = show_nat n"
    "dropWhile (\<lambda>c. \<not> is_exp_mark c) (show_nat n) = []"
    "takeWhile is_digit (show_nat n) = show_nat n" "dropWhile is_digit (show_nat n) = []"
    by (simp_all add: takeWhile_eq_all_conv dropWhile_eq_Nil_conv)
  have sign: "\<not> HasPrefix (show_nat n) ''-''"
    using show_nat_no_sign(1) by (auto simp: HasPrefix_iff)
  show ?thesis by (simp add: literal_value_def Let_def t sign)
qed

lemma bitlen_pos: "0 < x \<Longrightarrow> 0 < bitlen x"
  using bitlen_nonneg [of x] bitlen_eq_zero_iff [of x] by linarith

lemma log2_floor_nat:
  assumes "0 < n"
  shows "log2_floor (of_nat n) = bitlen (int n) - 1"
proof -
  have b: "2 ^ nat (bitlen (int n) - 1) \<le> int n" "0 < bitlen (int n)"
    using assms bitlen_bounds [of "int n"] bitlen_pos [of "int n"] by simp_all
  have "rat_of_int (2 ^ nat (bitlen (int n) - 1)) \<le> rat_of_int (int n)"
    using b(1) by (simp only: of_int_le_iff)
  then have "pow2 (bitlen (int n) - 1) \<le> of_nat n"
    using b(2) by (simp add: pow2_def)
  moreover have "quotient_of (of_nat n) = (int n, 1)"
    using quotient_of_int [of "int n"] by simp
  moreover have "bitlen 1 = 1" by (simp add: bitlen_alt_def)
  ultimately show ?thesis by (simp add: log2_floor_def Let_def)
qed

lemma float64_of_nat:
  assumes "n < 9007199254740992"
  shows "float64_of_rat (of_nat n) = Some (of_nat n)"
proof (cases "n = 0")
  case False
  define b where "b = bitlen (int n)"
  have b: "0 < b" "b \<le> 53"
    using False assms bitlen_le_iff_power [of "int n" 53] bitlen_pos [of "int n"]
    by (simp_all add: b_def)
  then have e: "max (log2_floor (of_nat n) - 52) (- 1074) = b - 53"
    using False by (simp add: log2_floor_nat b_def)
  have "of_nat n * pow2 (- (b - 53)) = rat_of_int (int n * 2 ^ nat (53 - b))"
    using b by (simp add: pow2_def)
  then have "of_int (round_even (of_nat n * pow2 (- (b - 53)))) = of_nat n * pow2 (- (b - 53))"
    by (simp only: round_even_of_int)
  then have r: "of_int (round_even (of_nat n * pow2 (- (b - 53)))) * pow2 (b - 53) = rat_of_nat n"
    using pow2_minus [of "b - 53"] by (simp add: mult.assoc)
  have "rat_of_nat n < of_nat 9007199254740992" using assms by (simp only: of_nat_less_iff)
  also have "\<dots> < pow2 1024" by (simp add: pow2_def)
  finally have small: "\<not> pow2 1024 \<le> rat_of_nat n" by simp
  have "float64_of_rat (of_nat n) =
      (let r = of_int (round_even (of_nat n * pow2 (- (b - 53)))) * pow2 (b - 53)
       in if pow2 1024 \<le> r then None else Some r)"
    using False unfolding float64_of_rat_def Let_def abs_of_nat e by simp
  then show ?thesis using small unfolding r Let_def by simp
qed (simp add: float64_of_rat_def)

lemma ParseFloat_show_nat:
  assumes "n < 9007199254740992"
  shows "ParseFloat (show_nat n) = Some (of_nat n)"
  using assms by (simp add: ParseFloat_def literal_value_show_nat float64_of_nat)

section \<open>Numbers close to a double round to it\<close>

lemma pow2_nonneg: "0 \<le> e \<Longrightarrow> pow2 e = 2 ^ nat e" by (simp add: pow2_def)

lemma pow2_powi: "pow2 e = 2 powi e"
  by (simp add: pow2_def power_int_def inverse_eq_divide power_one_over)

lemma pow2_add: "pow2 (d + e) = pow2 d * pow2 e"
  unfolding pow2_powi by (rule power_int_add) simp

lemma pow2_nonzero [simp]: "pow2 e \<noteq> 0"
  using pow2_pos [of e] by linarith

lemma pow2_less: "pow2 d < pow2 e \<longleftrightarrow> d < e"
proof -
  have mono: "pow2 d < pow2 e" if "d < e" for d e
    unfolding pow2_powi by (rule power_int_strict_increasing) (use that in auto)
  from mono [of d e] mono [of e d] show ?thesis by (cases d e rule: linorder_cases) auto
qed

lemma pow2_le: "pow2 d \<le> pow2 e \<longleftrightarrow> d \<le> e"
  using pow2_less [of e d] by (meson linorder_not_le)

lemma log2_floor_bounds:
  assumes "0 < x"
  shows "pow2 (log2_floor x) \<le> x" "x < pow2 (log2_floor x + 1)"
proof -
  obtain p q where pq: "quotient_of x = (p, q)" by fastforce
  have q: "0 < q" using quotient_of_denom_pos [OF pq] .
  have x: "x = of_int p / of_int q" using quotient_of_div [OF pq] .
  have p: "0 < p" using assms q by (simp add: x zero_less_divide_iff)
  have b: "pow2 (bitlen n - 1) \<le> of_int n" "of_int n < pow2 (bitlen n)" if "0 < n" for n
  proof -
    have i: "2 ^ nat (bitlen n - 1) \<le> n" "n < 2 ^ nat (bitlen n)" "1 \<le> bitlen n"
      using bitlen_bounds [OF that] bitlen_pos [OF that] by simp_all
    have "rat_of_int (2 ^ nat (bitlen n - 1)) \<le> of_int n" "of_int n < rat_of_int (2 ^ nat (bitlen n))"
      using i(1,2) by (simp_all only: of_int_le_iff of_int_less_iff)
    then show "pow2 (bitlen n - 1) \<le> of_int n" "of_int n < pow2 (bitlen n)"
      using i(3) by (simp_all add: pow2_nonneg)
  qed
  let ?k = "bitlen p - bitlen q"
  have "x < pow2 (bitlen p) / of_int q" using b(2) [OF p] q by (simp add: x divide_strict_right_mono)
  also have "\<dots> \<le> pow2 (bitlen p) / pow2 (bitlen q - 1)"
    using b(1) [OF q] q by (intro divide_left_mono) (simp_all add: less_imp_le)
  also have "\<dots> = pow2 (?k + 1)"
    using pow2_add [of "?k + 1" "bitlen q - 1"] by (simp add: nonzero_divide_eq_eq)
  finally have up: "x < pow2 (?k + 1)" .
  have "pow2 (?k - 1) = pow2 (bitlen p - 1) / pow2 (bitlen q)"
    using pow2_add [of "?k - 1" "bitlen q"] by (simp add: nonzero_eq_divide_eq)
  also have "\<dots> \<le> of_int p / pow2 (bitlen q)" using b(1) [OF p] by (simp add: divide_right_mono less_imp_le)
  also have "\<dots> \<le> x" using b(2) [OF q] q p by (simp add: x frac_le less_imp_le)
  finally have low: "pow2 (?k - 1) \<le> x" .
  show "pow2 (log2_floor x) \<le> x" using low by (simp add: log2_floor_def pq Let_def)
  show "x < pow2 (log2_floor x + 1)" using up by (simp add: log2_floor_def pq Let_def)
qed

lemma log2_floor_eq: "pow2 k \<le> x \<Longrightarrow> x < pow2 (k + 1) \<Longrightarrow> log2_floor x = k"
proof -
  assume k: "pow2 k \<le> x" "x < pow2 (k + 1)"
  then have "0 < x" using pow2_pos [of k] by linarith
  from log2_floor_bounds [OF this] k have "pow2 k < pow2 (log2_floor x + 1)" "pow2 (log2_floor x) < pow2 (k + 1)"
    by linarith+
  then show ?thesis by (simp add: pow2_less)
qed

lemma round_even_near: "\<bar>x - of_int n\<bar> < 1 / 2 \<Longrightarrow> round_even x = n"
proof -
  assume n: "\<bar>x - of_int n\<bar> < 1 / 2"
  show ?thesis
  proof (cases "of_int n \<le> x")
    case True
    then have "\<lfloor>x\<rfloor> = n" using n by (simp add: floor_unique)
    with n True show ?thesis by (simp add: round_even_def Let_def)
  next
    case False
    then have "\<lfloor>x\<rfloor> = n - 1" using n by (intro floor_unique) (auto simp: abs_if split: if_splits)
    with n False show ?thesis by (simp add: round_even_def Let_def abs_if split: if_splits)
  qed
qed

lemma round_even_dist: "\<bar>of_int (round_even x) - x\<bar> \<le> 1 / 2"
proof -
  have "of_int \<lfloor>x\<rfloor> \<le> x" "x < of_int \<lfloor>x\<rfloor> + 1" by linarith+
  then show ?thesis by (simp add: round_even_def Let_def abs_if) linarith
qed


definition grid :: "rat \<Rightarrow> int" where
  "grid x = max (log2_floor x - 52) (- 1074)"

lemma float64_of_pos:
  "0 < x \<Longrightarrow> float64_of_rat x =
    (let r = of_int (round_even (x * pow2 (- grid x))) * pow2 (grid x)
     in if pow2 1024 \<le> r then None else Some r)"
  by (simp add: float64_of_rat_def grid_def Let_def)

lemma grid_shift: "x * pow2 e * pow2 (- e) = x" "x * pow2 (- e) * pow2 e = x"
  using pow2_minus [of e] by (simp_all add: mult.assoc mult.commute [of "pow2 e"])

lemma float64_grid:
  assumes "0 < a" "float64_of_rat a = Some a"
  obtains m where "a = of_int m * pow2 (grid a)" "0 < m" "a < pow2 1024"
    "of_int (m + 1) \<le> pow2 (log2_floor a + 1 - grid a)" "m < 2 ^ 53"
proof -
  define m where "m = round_even (a * pow2 (- grid a))"
  have a: "a = of_int m * pow2 (grid a)" "a < pow2 1024"
    using assms by (auto simp: float64_of_pos Let_def m_def split: if_splits)
  have "0 < of_int m * pow2 (grid a)" using assms(1) a(1) by simp
  from zero_less_mult_pos2 [OF this] have m: "0 < m" by simp
  let ?k = "log2_floor a + 1 - grid a"
  have "of_int m * pow2 (grid a) < pow2 ?k * pow2 (grid a)"
    using log2_floor_bounds(2) [OF assms(1)] by (simp add: a(1) [symmetric] pow2_add [symmetric])
  then have lt: "of_int m < pow2 ?k" by simp
  have "0 \<le> ?k"
  proof (rule ccontr)
    assume "\<not> 0 \<le> ?k"
    then have "pow2 ?k < pow2 0" by (simp add: pow2_less)
    also have "pow2 0 = 1" by (simp add: pow2_def)
    finally show False using lt m by linarith
  qed
  then have k: "pow2 ?k = of_int (2 ^ nat ?k)" by (simp add: pow2_def)
  have "m + 1 \<le> 2 ^ nat ?k" using lt unfolding k of_int_less_iff by simp
  then have up: "of_int (m + 1) \<le> pow2 ?k" unfolding k of_int_le_iff .
  have "nat ?k \<le> 53" by (simp add: grid_def)
  then have "(2 :: int) ^ nat ?k \<le> 2 ^ 53" by (rule power_increasing) simp
  with lt have "m < 2 ^ 53" unfolding k of_int_less_iff by simp
  then show thesis using that a m up by blast
qed

lemma float64_near:
  assumes "0 < a" "float64_of_rat a = Some a" "\<bar>y - a\<bar> * (2 * 10 ^ 16) \<le> a"
  shows "float64_of_rat y = Some a"
proof -
  obtain m where m: "a = of_int m * pow2 (grid a)" "0 < m" "a < pow2 1024"
    "of_int (m + 1) \<le> pow2 (log2_floor a + 1 - grid a)" "m < 2 ^ 53"
    by (rule float64_grid [OF assms(1,2)])
  let ?s = "y * pow2 (- grid a)"
  have y: "0 < y" using assms(1,3) by (simp add: abs_if split: if_splits)
  let ?p = "pow2 (- grid a)"
  have am: "a * ?p = of_int m" using grid_shift(1) [of "of_int m" "grid a"] m(1) by simp
  then have "?s - of_int m = (y - a) * ?p" by (simp add: left_diff_distrib)
  then have "\<bar>?s - of_int m\<bar> = \<bar>y - a\<bar> * ?p" by (simp add: abs_mult abs_of_pos)
  moreover have "\<bar>y - a\<bar> * (2 * 10 ^ 16) * ?p \<le> a * ?p"
    using assms(3) by (rule mult_right_mono) (simp add: less_imp_le)
  ultimately have d: "\<bar>?s - of_int m\<bar> * (2 * 10 ^ 16) \<le> of_int m"
    unfolding am by (simp add: ac_simps)
  have "rat_of_int m \<le> of_int (2 ^ 53 - 1)" unfolding of_int_le_iff using m(5) by simp
  then have small: "rat_of_int m \<le> 2 ^ 53 - 1" by simp
  have near: "\<bar>?s - of_int m\<bar> < 1 / 2" using d small by simp
  have a_bounds: "pow2 (log2_floor a) \<le> a" "a < pow2 (log2_floor a + 1)"
    using log2_floor_bounds [OF assms(1)] .
  have y_bounds: "pow2 (log2_floor y) \<le> y" "y < pow2 (log2_floor y + 1)"
    using log2_floor_bounds [OF y] .
  have scale: "pow2 k * ?p = pow2 (k - grid a)" for k using pow2_add [of k "- grid a"] by simp
  have p: "0 < ?p" by simp
  consider "grid y = grid a" | "grid a < grid y" | "grid y < grid a" by linarith
  then show ?thesis
  proof cases
    case 1
    then show ?thesis using float64_of_pos [OF y] round_even_near [OF near] m(1,3) by (simp add: Let_def)
  next
    case 2
    then have "log2_floor a + 1 \<le> log2_floor y" by (auto simp: grid_def)
    then have "pow2 (log2_floor a + 1) \<le> y" using y_bounds(1) pow2_le order_trans by blast
    then have "pow2 (log2_floor a + 1) * ?p \<le> ?s" using p by (intro mult_right_mono) (simp_all add: less_imp_le)
    then have "of_int (m + 1) \<le> ?s" using m(4) by (simp add: scale)
    then show ?thesis using near by (simp add: abs_if split: if_splits)
  next
    case 3
    then have g: "grid a = log2_floor a - 52" "log2_floor y < log2_floor a" "- 1074 < grid a"
      by (auto simp: grid_def max_def split: if_splits)
    have "2 * y \<ge> a" using assms(1,3) by (simp add: abs_if split: if_splits)
    then have "pow2 (log2_floor a) < pow2 (log2_floor y + 2)"
      using a_bounds(1) y_bounds(2) pow2_add [of "log2_floor y + 1" 1] by (simp add: pow2_def [of 1] add.commute)
    then have ly: "log2_floor y = log2_floor a - 1" using g(2) by (simp add: pow2_less)
    then have gy: "grid y = grid a - 1" using g(1,3) by (simp add: grid_def)
    have "pow2 (log2_floor a) * ?p \<le> of_int m" using a_bounds(1) p am by (metis mult_right_mono less_imp_le)
    then have "pow2 52 \<le> rat_of_int m" by (simp add: g(1) pow2_add [symmetric])
    then have low: "2 ^ 52 \<le> rat_of_int m" by (simp add: pow2_def)
    have "?s < pow2 (log2_floor a) * ?p" using y_bounds(2) p by (simp add: ly)
    then have "?s < pow2 52" by (simp add: g(1) pow2_add [symmetric])
    then have "?s < 2 ^ 52" by (simp add: pow2_def)
    then have "rat_of_int m < of_int (2 ^ 52 + 1)" using near by (simp add: abs_if split: if_splits)
    then have "m < 2 ^ 52 + 1" by (simp only: of_int_less_iff)
    moreover have "rat_of_int (2 ^ 52) \<le> of_int m" using low by simp
    then have "2 ^ 52 \<le> m" by (simp only: of_int_le_iff)
    ultimately have m52: "m = 2 ^ 52" by simp
    have "pow2 (- grid y) = 2 * ?p" using pow2_add [of 1 "- grid a"] by (simp add: gy pow2_def [of 1])
    then have "\<bar>y * pow2 (- grid y) - of_int (2 ^ 53)\<bar> = 2 * \<bar>?s - of_int m\<bar>"
      by (simp add: m52 abs_if)
    also have "\<dots> < 1 / 2" using d by (simp add: m52)
    finally have "round_even (y * pow2 (- grid y)) = 2 ^ 53" by (rule round_even_near)
    moreover have "2 ^ 53 * pow2 (grid y) = a"
      using m(1) pow2_add [of 1 "grid y"] by (simp add: m52 gy pow2_def [of 1])
    ultimately show ?thesis using float64_of_pos [OF y] m(3) by (simp add: Let_def)
  qed
qed

text \<open>Rounding twice is rounding once.\<close>

lemma float64_on_grid:
  assumes "0 < x" "x * pow2 (- grid x) = of_int k" "x < pow2 1024"
  shows "float64_of_rat x = Some x"
proof -
  have "of_int k * pow2 (grid x) = x" using grid_shift(2) [of x "grid x"] assms(2) by simp
  then show ?thesis using assms by (simp add: float64_of_pos Let_def)
qed

lemma round_even_mono_int: "of_int k \<le> x \<Longrightarrow> k \<le> round_even x" "x \<le> of_int k \<Longrightarrow> round_even x \<le> k"
proof -
  show "k \<le> round_even x" if "of_int k \<le> x"
  proof -
    have "k \<le> \<lfloor>x\<rfloor>" using that by (simp add: le_floor_iff)
    then show ?thesis by (auto simp: round_even_def Let_def)
  qed
  show "round_even x \<le> k" if "x \<le> of_int k"
  proof (cases "x = of_int k")
    case False
    then have "\<lfloor>x\<rfloor> + 1 \<le> k" using that by (simp add: floor_less_iff zless_imp_add1_zle)
    then show ?thesis by (auto simp: round_even_def Let_def)
  qed simp
qed

lemma float64_idem_pos:
  assumes "0 < x" "float64_of_rat x = Some r"
  shows "float64_of_rat r = Some r"
proof -
  let ?e = "grid x" and ?s = "x * pow2 (- grid x)"
  define m where "m = round_even ?s"
  have r: "r = of_int m * pow2 ?e" "r < pow2 1024"
    using assms by (auto simp: float64_of_pos Let_def m_def split: if_splits)
  have p: "0 < pow2 (- ?e)" by simp
  have "0 \<le> m" unfolding m_def using assms(1) by (intro round_even_mono_int) (simp add: less_imp_le)
  show ?thesis
  proof (cases "m = 0")
    case True
    then show ?thesis using r by (simp add: float64_of_rat_def)
  next
    case False
    then have m: "0 < m" using \<open>0 \<le> m\<close> by simp
    then have rpos: "0 < r" by (simp add: r(1))
    have "x \<le> pow2 (log2_floor x + 1)" using log2_floor_bounds [OF assms(1)] by simp
    also have "\<dots> \<le> pow2 (53 + ?e)" by (simp add: pow2_le grid_def)
    finally have "?s \<le> pow2 (53 + ?e) * pow2 (- ?e)" using p by (intro mult_right_mono) (simp_all add: less_imp_le)
    also have "\<dots> = of_int (2 ^ 53)" by (simp add: pow2_add [symmetric]) (simp add: pow2_def)
    finally have "m \<le> 2 ^ 53" unfolding m_def by (rule round_even_mono_int)
    then consider "m = 2 ^ 53" | "m < 2 ^ 53" by linarith
    then show ?thesis
    proof cases
      case 1
      then have "r = pow2 53 * pow2 ?e" by (simp add: r(1) pow2_def)
      then have r53: "r = pow2 (53 + ?e)" by (simp add: pow2_add)
      then have "log2_floor r = 53 + ?e" by (intro log2_floor_eq) (simp_all add: pow2_less)
      then have g: "grid r = ?e + 1" by (simp add: grid_def)
      have "r * pow2 (- grid r) = pow2 52"
        by (simp add: g) (simp add: r53 pow2_add [symmetric])
      then have "r * pow2 (- grid r) = of_int (2 ^ 52)" by (simp add: pow2_def)
      then show ?thesis by (rule float64_on_grid [OF rpos _ r(2)])
    next
      case 2
      have "rat_of_int m < of_int (2 ^ 53)" using 2 by (simp only: of_int_less_iff)
      then have up: "r < pow2 (53 + ?e)" by (simp add: r(1) pow2_add) (simp add: pow2_def)
      have "pow2 (log2_floor r) < pow2 (53 + ?e)" using log2_floor_bounds(1) [OF rpos] up by linarith
      then have le: "grid r \<le> ?e" by (auto simp: pow2_less grid_def)
      then have "r * pow2 (- grid r) = of_int m * pow2 (?e - grid r)"
        by (simp add: r(1) mult.assoc pow2_add [symmetric])
      also have "\<dots> = of_int (m * 2 ^ nat (?e - grid r))" using le by (simp add: pow2_def)
      finally show ?thesis by (rule float64_on_grid [OF rpos _ r(2)])
    qed
  qed
qed

lemma float64_of_neg: "float64_of_rat (- x) = map_option uminus (float64_of_rat x)"
  by (auto simp: float64_of_rat_def Let_def)

lemma float64_idem: "float64_of_rat x = Some r \<Longrightarrow> float64_of_rat r = Some r"
proof (cases x "0 :: rat" rule: linorder_cases)
  case less
  assume "float64_of_rat x = Some r"
  then have "float64_of_rat (- x) = Some (- r)" by (simp add: float64_of_neg)
  from float64_idem_pos [OF _ this] less have "float64_of_rat (- r) = Some (- r)" by simp
  then show ?thesis using float64_of_neg [of "- r"] by simp
next
  case equal
  then show "float64_of_rat x = Some r \<Longrightarrow> float64_of_rat r = Some r" by (simp add: float64_of_rat_def)
qed (rule float64_idem_pos)

lemma ParseFloat_double: "ParseFloat lit = Some x \<Longrightarrow> float64_of_rat x = Some x"
  by (auto simp: ParseFloat_def dest: float64_idem)

end
