(* ===== verification/Go_Float_Format.thy ===== *)
theory Go_Float_Format
  imports Go_Float Go_Json_Encode
begin

text \<open>
  How \<open>encoding/json\<close> writes a double: the shortest decimal that is read back as the same
  double, in plain notation between 1e-6 and 1e21 and with an exponent outside. What is written
  is a JSON number and is parsed to the double it came from. The two zeros are one value.
\<close>

section \<open>Shortest decimals\<close>


definition pow10 :: "int \<Rightarrow> rat" where
  "pow10 e = (if 0 \<le> e then 10 ^ nat e else 1 / 10 ^ nat (- e))"

text \<open>
  Where the decimal point of a positive number stands: \<open>10 ^ (p - 1) \<le> a < 10 ^ p\<close>. The
  fuel of the search is the decimal exponent of the smallest double.
\<close>

fun frac_zeros :: "nat \<Rightarrow> rat \<Rightarrow> nat" where
  "frac_zeros 0 a = 0"
| "frac_zeros (Suc f) a = (if 1 \<le> 10 * a then 0 else Suc (frac_zeros f (10 * a)))"

definition dec_point :: "rat \<Rightarrow> int" where
  "dec_point a =
     (if 1 \<le> a then int (length (show_nat (nat \<lfloor>a\<rfloor>))) else - int (frac_zeros 324 a))"

text \<open>A number of \<open>n\<close> digits that is read back as \<open>a\<close>, the closer one of the two next to it first.\<close>

definition with_digits :: "rat \<Rightarrow> int \<Rightarrow> nat \<Rightarrow> nat option" where
  "with_digits a p n =
     (let e = p - int n; s = a * pow10 (- e); near = round_even s; far = 2 * \<lfloor>s\<rfloor> + 1 - near;
          reads_back = (\<lambda>c. float64_of_rat (of_int c * pow10 e) = Some a)
      in if reads_back near then Some (nat near)
         else if reads_back far then Some (nat far) else None)"

fun shortest_from :: "rat \<Rightarrow> int \<Rightarrow> nat list \<Rightarrow> nat \<times> int" where
  "shortest_from a p [] = (nat (round_even (a * pow10 (17 - p))), p - 17)"
| "shortest_from a p (n # ns) =
     (case with_digits a p n of
        Some c \<Rightarrow> (c, p - int n)
      | None \<Rightarrow> shortest_from a p ns)"

fun strip_zeros :: "nat \<Rightarrow> int \<Rightarrow> nat \<times> int" where
  "strip_zeros c e = (if c \<noteq> 0 \<and> c mod 10 = 0 then strip_zeros (c div 10) (e + 1) else (c, e))"

declare strip_zeros.simps [simp del]

text \<open>The shortest decimal \<open>c * 10 ^ e\<close> that is read back as the positive double \<open>a\<close>.\<close>

definition shortest :: "rat \<Rightarrow> nat \<times> int" where
  "shortest a = (case shortest_from a (dec_point a) [1..<17] of (c, e) \<Rightarrow> strip_zeros c e)"

text \<open>A number literal from its sign, its digits before and after the point and its exponent.\<close>

definition make_literal :: "bool \<Rightarrow> go_string \<Rightarrow> go_string \<Rightarrow> int option \<Rightarrow> go_string" where
  "make_literal neg ip fd ex =
     (if neg then ''-'' else []) @ ip @ (if fd = [] then [] else CHR ''.'' # fd) @
     (case ex of
        None \<Rightarrow> []
      | Some k \<Rightarrow> CHR ''e'' # (if k < 0 then CHR ''-'' else CHR ''+'') # show_nat (nat \<bar>k\<bar>))"

definition format_float :: "rat \<Rightarrow> go_string" where
  "format_float x =
     (if x = 0 then ''0''
      else
        let a = \<bar>x\<bar>; (c, e) = shortest a; ds = show_nat c; p = int (length ds) + e
        in if a < the (float64_of_rat (1 / 10 ^ 6)) \<or> 10 ^ 21 \<le> a
           then make_literal (x < 0) [hd ds] (tl ds) (Some (p - 1))
           else if p \<le> 0 then make_literal (x < 0) ''0'' (replicate (nat (- p)) CHR ''0'' @ ds) None
           else if int (length ds) \<le> p
           then make_literal (x < 0) (ds @ replicate (nat e) CHR ''0'') [] None
           else make_literal (x < 0) (take (nat p) ds) (drop (nat p) ds) None)"


section \<open>The decimal point\<close>

lemma pow10_powi: "pow10 e = 10 powi e"
  by (simp add: pow10_def power_int_def inverse_eq_divide power_one_over)

lemma pow10_add: "pow10 (d + e) = pow10 d * pow10 e"
  unfolding pow10_powi by (rule power_int_add) simp

lemma pow10_pos [simp]: "0 < pow10 e" "pow10 e \<noteq> 0"
  by (simp_all add: pow10_def)

lemma pow10_shift: "pow10 e * pow10 (- e) = 1"
  using pow10_add [of e "- e"] by (simp add: pow10_def)

lemma length_show_nat: "0 < n \<Longrightarrow> 10 ^ (length (show_nat n) - 1) \<le> n \<and> n < 10 ^ length (show_nat n)"
proof (induction n rule: show_nat.induct)
  case (1 n)
  show ?case
  proof (cases "n < 10")
    case False
    let ?l = "length (show_nat (n div 10))"
    have l: "0 < ?l" using show_nat_digits [of "n div 10"] by simp
    have "10 ^ (?l - 1) \<le> n div 10" "n div 10 < 10 ^ ?l" using 1 False by auto
    then have "10 * 10 ^ (?l - 1) \<le> n" "n < 10 * 10 ^ ?l" by linarith+
    moreover have "10 * 10 ^ (?l - 1) = (10 :: nat) ^ ?l" using l by (cases ?l) simp_all
    ultimately show ?thesis using False by (simp add: show_nat.simps [of n])
  qed (use 1(2) in \<open>simp add: show_nat.simps [of n]\<close>)
qed

lemma frac_zeros_bounds:
  "0 < a \<Longrightarrow> a < 1 \<Longrightarrow> 1 \<le> 10 ^ f * a \<Longrightarrow>
    10 ^ frac_zeros f a * a < 1 \<and> 1 \<le> 10 * 10 ^ frac_zeros f a * a"
proof (induction f arbitrary: a)
  case (Suc f)
  then show ?case using Suc.IH [of "10 * a"] by (auto simp: mult.assoc mult.left_commute)
qed simp

lemma dec_point_bounds:
  assumes "0 < a" "1 \<le> 10 ^ 324 * a"
  shows "pow10 (dec_point a - 1) \<le> a" "a < pow10 (dec_point a)"
proof -
  show "pow10 (dec_point a - 1) \<le> a"
  proof (cases "1 \<le> a")
    case True
    define n where "n = nat \<lfloor>a\<rfloor>"
    have n: "0 < n" "of_nat n \<le> a" "a < of_nat (n + 1)" using True by (simp_all add: n_def) linarith+
    let ?l = "length (show_nat n)"
    have l: "0 < ?l" using show_nat_digits [of n] by simp
    have "rat_of_nat (10 ^ (?l - 1)) \<le> of_nat n"
      using length_show_nat [OF n(1)] by (simp only: of_nat_le_iff)
    then have "rat_of_nat (10 ^ (?l - 1)) \<le> a" using n(2) by (rule order_trans)
    moreover have "nat (int ?l - 1) = ?l - 1" "0 \<le> int ?l - 1" using l by simp_all
    ultimately show ?thesis using True by (simp add: dec_point_def n_def [symmetric] pow10_def)
  next
    case False
    then show ?thesis using frac_zeros_bounds [of a 324] assms
      by (simp add: dec_point_def pow10_def nat_add_distrib divide_le_eq mult.commute)
  qed
  show "a < pow10 (dec_point a)"
  proof (cases "1 \<le> a")
    case True
    define n where "n = nat \<lfloor>a\<rfloor>"
    have n: "0 < n" "a < of_nat (n + 1)" using True by (simp_all add: n_def) linarith+
    let ?l = "length (show_nat n)"
    have "n + 1 \<le> 10 ^ ?l" using length_show_nat [OF n(1)] by simp
    then have "rat_of_nat (n + 1) \<le> of_nat (10 ^ ?l)" by (simp only: of_nat_le_iff)
    then show ?thesis using n(2) True by (simp add: dec_point_def n_def [symmetric] pow10_def)
  next
    case False
    then show ?thesis using frac_zeros_bounds [of a 324] assms
      by (auto simp: dec_point_def pow10_def less_divide_eq mult.commute)
  qed
qed

section \<open>Digits that are read back\<close>

lemma strip_zeros_value:
  "strip_zeros c e = (c', e') \<Longrightarrow> of_nat c' * pow10 e' = of_nat c * pow10 e \<and> (0 < c \<longrightarrow> 0 < c')"
proof (induction c e rule: strip_zeros.induct)
  case (1 c e)
  show ?case
  proof (cases "c \<noteq> 0 \<and> c mod 10 = 0")
    case True
    then have d: "c = c div 10 * 10" "0 < c div 10" by presburger+
    then have "rat_of_nat c = of_nat (c div 10 * 10)" by simp
    then have c: "rat_of_nat c = of_nat (c div 10) * 10" by (simp only: of_nat_mult of_nat_numeral)
    from 1(1) [OF True] 1(2) True have "of_nat c' * pow10 e' = of_nat (c div 10) * pow10 (e + 1)" "0 < c'"
      using d(2) by (auto simp: strip_zeros.simps [of c e])
    then show ?thesis using c by (simp add: pow10_add pow10_def [of 1])
  qed (use 1(2) in \<open>auto simp: strip_zeros.simps [of c e]\<close>)
qed

lemma round_even_cases: "round_even x = \<lfloor>x\<rfloor> \<or> round_even x = \<lfloor>x\<rfloor> + 1"
  by (simp add: round_even_def Let_def)

lemma with_digits_reads:
  assumes "with_digits a p n = Some c" "0 < a"
  shows "float64_of_rat (of_nat c * pow10 (p - int n)) = Some a"
proof -
  have "0 \<le> \<lfloor>a * pow10 (- (p - int n))\<rfloor>" using assms(2) by (simp add: less_imp_le)
  then have "0 \<le> round_even (a * pow10 (- (p - int n)))"
    "0 \<le> 2 * \<lfloor>a * pow10 (- (p - int n))\<rfloor> + 1 - round_even (a * pow10 (- (p - int n)))"
    using round_even_cases [of "a * pow10 (- (p - int n))"] by auto
  then show ?thesis using assms(1) by (auto simp: with_digits_def Let_def split: if_splits)
qed

lemma seventeen_digits:
  assumes "0 < a" "float64_of_rat a = Some a" "pow10 (p - 1) \<le> a"
  shows "float64_of_rat (of_nat (nat (round_even (a * pow10 (17 - p)))) * pow10 (p - 17)) = Some a"
proof (rule float64_near [OF assms(1,2)])
  let ?s = "a * pow10 (17 - p)" and ?u = "pow10 (p - 17)"
  have "0 \<le> \<lfloor>?s\<rfloor>" using assms(1) by (simp add: less_imp_le)
  then have r: "rat_of_nat (nat (round_even ?s)) = of_int (round_even ?s)"
    using round_even_cases [of ?s] by auto
  have "?s * ?u = a" using pow10_shift [of "17 - p"] by (simp add: mult.assoc)
  then have "of_nat (nat (round_even ?s)) * ?u - a = (of_int (round_even ?s) - ?s) * ?u"
    by (simp add: r left_diff_distrib)
  then have "\<bar>of_nat (nat (round_even ?s)) * ?u - a\<bar> = \<bar>of_int (round_even ?s) - ?s\<bar> * ?u"
    by (simp add: abs_mult abs_of_pos)
  also have "\<dots> \<le> 1 / 2 * ?u"
    using round_even_dist by (rule mult_right_mono) (simp add: less_imp_le)
  finally have "\<bar>of_nat (nat (round_even ?s)) * ?u - a\<bar> * (2 * 10 ^ 16) \<le> 10 ^ 16 * ?u" by simp
  also have "10 ^ 16 * ?u = pow10 (p - 1)"
    using pow10_add [of 16 "p - 17"] by (simp add: pow10_def [of 16])
  finally show "\<bar>of_nat (nat (round_even ?s)) * ?u - a\<bar> * (2 * 10 ^ 16) \<le> a" using assms(3) by simp
qed

lemma shortest_from_reads:
  assumes "0 < a" "float64_of_rat a = Some a" "pow10 (p - 1) \<le> a"
  shows "shortest_from a p ns = (c, e) \<Longrightarrow> float64_of_rat (of_nat c * pow10 e) = Some a"
proof (induction ns)
  case Nil
  then show ?case using seventeen_digits [OF assms] by auto
next
  case (Cons n ns)
  then show ?case using with_digits_reads [OF _ assms(1)] by (auto split: option.splits)
qed

lemma smallest_double:
  assumes "0 < a" "float64_of_rat a = Some a"
  shows "1 \<le> 10 ^ 324 * a"
proof -
  obtain m where m: "a = of_int m * pow2 (grid a)" "0 < m" by (rule float64_grid [OF assms])
  have "pow2 (- 1074) \<le> pow2 (grid a)" by (simp add: pow2_le grid_def)
  also have "\<dots> \<le> of_int m * pow2 (grid a)" using m(2) by simp
  finally have "pow2 (- 1074) \<le> a" using m(1) by simp
  moreover have "1 \<le> 10 ^ 324 * pow2 (- 1074)" by (simp add: pow2_def)
  ultimately show ?thesis by (simp add: order_trans mult_left_mono)
qed

lemma shortest_reads:
  assumes "0 < a" "float64_of_rat a = Some a" "shortest a = (c, e)"
  shows "float64_of_rat (of_nat c * pow10 e) = Some a" "0 < c"
proof -
  obtain c0 e0 where 0: "shortest_from a (dec_point a) [1..<17] = (c0, e0)" by fastforce
  have r: "float64_of_rat (of_nat c0 * pow10 e0) = Some a"
    using shortest_from_reads [OF assms(1,2) dec_point_bounds(1) [OF assms(1) smallest_double [OF assms(1,2)]] 0] .
  have "c0 \<noteq> 0"
  proof
    assume "c0 = 0"
    then have "float64_of_rat 0 = Some a" using r by simp
    then show False using assms(1) by (simp add: float64_of_rat_def)
  qed
  then show "float64_of_rat (of_nat c * pow10 e) = Some a" "0 < c"
    using strip_zeros_value [of c0 e0 c e] r 0 assms(3) by (auto simp: shortest_def)
qed

section \<open>The text of a double\<close>

lemma digits_value_append_list:
  "digits_value acc (xs @ ys) = digits_value (digits_value acc xs) ys"
  by (induction acc xs rule: digits_value.induct) simp_all

lemma digits_value_zeros: "digits_value acc (replicate k CHR ''0'') = acc * 10 ^ k"
  by (induction k arbitrary: acc) (simp_all add: mult.assoc mult.left_commute)

lemma exponent_text:
  defines "x \<equiv> \<lambda>k. CHR ''e'' # (if k < 0 then CHR ''-'' else CHR ''+'') # show_nat (nat \<bar>k\<bar>)"
  shows "dropWhile (\<lambda>c. \<not> is_exp_mark c) (x k) = x k" "takeWhile (\<lambda>c. \<not> is_exp_mark c) (x k) = []"
  by (simp_all add: x_def is_exp_mark_def)

lemma literal_value_make:
  assumes "list_all is_digit ip" "ip \<noteq> []" "list_all is_digit fd"
  shows "literal_value (make_literal neg ip fd ex) =
    (if neg then - 1 else 1) * (of_nat (digits_value 0 (ip @ fd)) / 10 ^ length fd *
      pow10 (case ex of None \<Rightarrow> 0 | Some k \<Rightarrow> k))"
proof -
  let ?fr = "if fd = [] then [] else CHR ''.'' # fd"
  let ?ex = "case ex of None \<Rightarrow> []
      | Some k \<Rightarrow> CHR ''e'' # (if k < 0 then CHR ''-'' else CHR ''+'') # show_nat (nat \<bar>k\<bar>)"
  have mark: "\<not> is_exp_mark c" if "is_digit c" for c using that by (auto simp: is_exp_mark_def is_digit_def)
  have plain: "\<forall>c \<in> set (ip @ ?fr). \<not> is_exp_mark c"
    using assms mark by (auto simp: list_all_iff is_exp_mark_def)
  have mant: "takeWhile (\<lambda>c. \<not> is_exp_mark c) ((ip @ ?fr) @ ?ex) = ip @ ?fr"
    "dropWhile (\<lambda>c. \<not> is_exp_mark c) ((ip @ ?fr) @ ?ex) = ?ex"
    using plain by (auto simp: takeWhile_append dropWhile_append is_exp_mark_def split: option.split)
  have digits: "takeWhile is_digit (ip @ ?fr) = ip" "tl (dropWhile is_digit (ip @ ?fr)) = fd"
    using assms by (auto simp: takeWhile_append dropWhile_append list_all_iff is_digit_def)
  have neg: "HasPrefix (make_literal neg ip fd ex) ''-'' = neg"
    using assms by (cases ip) (auto simp: make_literal_def HasPrefix_def is_digit_def)
  have body: "(if neg then tl (make_literal neg ip fd ex) else make_literal neg ip fd ex) =
      (ip @ ?fr) @ ?ex"
    by (simp add: make_literal_def)
  have sign: "\<not> HasPrefix (show_nat n) ''-''" for n
    using show_nat_no_sign(1) by (auto simp: HasPrefix_iff)
  show ?thesis
    unfolding literal_value_def neg Let_def body mant digits
    by (cases ex) (auto simp: HasPrefix_def pow10_def)
qed

lemma p_num_make:
  assumes "list_all is_digit ip" "ip \<noteq> []" "list_all is_digit fd" "hd ip = CHR ''0'' \<longrightarrow> tl ip = []"
  shows "p_num (make_literal neg ip fd ex) = Some (make_literal neg ip fd ex, [])"
proof -
  let ?fr = "if fd = [] then [] else CHR ''.'' # fd"
  let ?ex = "case ex of None \<Rightarrow> []
      | Some k \<Rightarrow> CHR ''e'' # (if k < 0 then CHR ''-'' else CHR ''+'') # show_nat (nat \<bar>k\<bar>)"
  have all: "takeWhile is_digit (show_nat n) = show_nat n" "dropWhile is_digit (show_nat n) = []"
    "show_nat n \<noteq> []" for n
    using show_nat_digits [of n] by (simp_all add: list_all_iff takeWhile_eq_all_conv dropWhile_eq_Nil_conv)
  have dig: "is_digit c" if "c \<in> set (show_nat n)" for c n
    using that show_nat_digits [of n] by (simp add: list_all_iff)
  have nd: "\<not> is_digit CHR ''.''" "\<not> is_digit CHR ''e''" by (simp_all add: is_digit_def)
  have ex: "p_exp ?ex = Some (?ex, [])"
    by (cases ex) (auto simp: p_exp_def starts_def all Let_def dest: dig)
  have fd: "takeWhile is_digit (fd @ t) = fd @ takeWhile is_digit t"
    "dropWhile is_digit (fd @ t) = dropWhile is_digit t" for t
    using assms(3) by (simp_all add: takeWhile_append2 dropWhile_append2 list_all_iff)
  have fr: "p_frac (?fr @ ?ex) = Some (?fr, ?ex)"
    using assms(3) by (cases ex; cases fd) (auto simp: p_frac_def starts_def fd [simplified] nd Let_def takeWhile_append2 dropWhile_append2
        list_all_iff takeWhile_eq_all_conv dropWhile_eq_Nil_conv)
  have ip: "takeWhile is_digit (ip @ ?fr @ ?ex) = ip"
    using assms(1) by (cases ex) (auto simp: takeWhile_append list_all_iff nd dest: dig)
  have zero: "(if starts CHR ''0'' ip then ''0'' else ip) = ip"
    using assms(2,4) by (cases ip) (auto simp: starts_def)
  have sg: "(if starts CHR ''-'' (make_literal neg ip fd ex) then ''-'' else []) = (if neg then ''-'' else [])"
    using assms by (cases ip) (auto simp: make_literal_def starts_def is_digit_def)
  have body: "drop (length (if neg then ''-'' else [])) (make_literal neg ip fd ex) = ip @ ?fr @ ?ex"
    by (simp add: make_literal_def)
  show ?thesis
    unfolding p_num_def Let_def sg body ip zero append_eq_conv_conj [THEN iffD1, OF refl]
    using assms(2) by (simp add: fr ex make_literal_def)
qed

lemma plain_digits:
  assumes "int (length ds) + e = p"
  shows "p \<le> 0 \<Longrightarrow> of_nat (digits_value 0 (''0'' @ replicate (nat (- p)) CHR ''0'' @ ds)) /
      10 ^ length (replicate (nat (- p)) CHR ''0'' @ ds) = of_nat (digits_value 0 ds) * pow10 e"
    and "int (length ds) \<le> p \<Longrightarrow>
      of_nat (digits_value 0 (ds @ replicate (nat e) CHR ''0'')) = of_nat (digits_value 0 ds) * pow10 e"
    and "0 < p \<Longrightarrow> p < int (length ds) \<Longrightarrow>
      of_nat (digits_value 0 (take (nat p) ds @ drop (nat p) ds)) / 10 ^ length (drop (nat p) ds) =
        of_nat (digits_value 0 ds) * pow10 e"
proof -
  assume "p \<le> 0"
  then have "nat (- e) = nat (- p) + length ds" "e = 0 \<longrightarrow> ds = []" "e \<le> 0" using assms by auto
  then show "of_nat (digits_value 0 (''0'' @ replicate (nat (- p)) CHR ''0'' @ ds)) /
      10 ^ length (replicate (nat (- p)) CHR ''0'' @ ds) = of_nat (digits_value 0 ds) * pow10 e"
    using digits_value_zeros [of 0 "Suc (nat (- p))"]
    by (auto simp: digits_value_append_list pow10_def)
next
  assume "int (length ds) \<le> p"
  then show "of_nat (digits_value 0 (ds @ replicate (nat e) CHR ''0'')) = of_nat (digits_value 0 ds) * pow10 e"
    using assms by (simp add: digits_value_append_list digits_value_zeros pow10_def)
next
  assume "0 < p" "p < int (length ds)"
  then have "nat (- e) = length ds - nat p" "e < 0" using assms by auto
  then show "of_nat (digits_value 0 (take (nat p) ds @ drop (nat p) ds)) / 10 ^ length (drop (nat p) ds) =
        of_nat (digits_value 0 ds) * pow10 e"
    by (simp add: pow10_def)
qed

lemma exponent_digits:
  assumes "ds \<noteq> []"
  shows "of_nat (digits_value 0 ([hd ds] @ tl ds)) / 10 ^ length (tl ds) * pow10 (int (length ds) + e - 1) =
    of_nat (digits_value 0 ds) * pow10 e"
proof -
  have "pow10 (int (length ds) + e - 1) = 10 ^ length (tl ds) * pow10 e"
    using assms pow10_add [of "int (length (tl ds))" e] by (cases ds) (simp_all add: pow10_def [of "int _"])
  then show ?thesis using assms by simp
qed

lemma format_float_literal:
  assumes "float64_of_rat x = Some x" "x \<noteq> 0"
  obtains ip fd ex where "format_float x = make_literal (x < 0) ip fd ex"
    "list_all is_digit ip" "ip \<noteq> []" "list_all is_digit fd" "hd ip = CHR ''0'' \<longrightarrow> tl ip = []"
    "float64_of_rat (of_nat (digits_value 0 (ip @ fd)) / 10 ^ length fd *
       pow10 (case ex of None \<Rightarrow> 0 | Some k \<Rightarrow> k)) = Some \<bar>x\<bar>"
proof -
  have a: "0 < \<bar>x\<bar>" "float64_of_rat \<bar>x\<bar> = Some \<bar>x\<bar>"
    using assms float64_of_neg [of x] by (auto simp: abs_if)
  obtain c e where c: "shortest \<bar>x\<bar> = (c, e)" by fastforce
  note read = shortest_reads [OF a c]
  define ds where "ds = show_nat c"
  let ?p = "int (length ds) + e"
  have ds: "list_all is_digit ds" "ds \<noteq> []" "digits_value 0 ds = c"
    using show_nat_digits [of c] by (simp_all add: ds_def)
  have lead: "hd ds \<noteq> CHR ''0''"
  proof
    have "show_nat 0 = ''0''" by code_simp
    moreover assume "hd ds = CHR ''0''"
    ultimately have "show_nat c = show_nat 0"
      using show_nat_leading_zero [of c] ds(2) by (simp add: starts_def ds_def)
    then show False using read(2) by (auto dest: show_nat_inj)
  qed
  have zeros: "list_all is_digit (replicate n CHR ''0'')" for n by (simp add: list_all_iff is_digit_def)
  have parts: "list_all is_digit (take n ds)" "list_all is_digit (drop n ds)" "list_all is_digit (tl ds)"
    "is_digit (hd ds)" for n
    using ds(1,2) by (auto simp: list_all_iff dest: in_set_takeD in_set_dropD list.set_sel)
  note f = format_float_def assms(2) Let_def c ds_def [symmetric]
  note pd = plain_digits [of ds e ?p, OF refl]
  show thesis
  proof (cases "\<bar>x\<bar> < the (float64_of_rat (1 / 10 ^ 6)) \<or> 10 ^ 21 \<le> \<bar>x\<bar>")
    case True
    then have "format_float x = make_literal (x < 0) [hd ds] (tl ds) (Some (?p - 1))" by (simp add: f)
    then show thesis
      using that [of "[hd ds]" "tl ds" "Some (?p - 1)"] exponent_digits [OF ds(2), of e] read(1) ds parts
      by simp
  next
    case False
    consider "?p \<le> 0" | "0 < ?p" "int (length ds) \<le> ?p" | "0 < ?p" "?p < int (length ds)" by linarith
    then show thesis
    proof cases
      case 1
      then have "format_float x = make_literal (x < 0) ''0'' (replicate (nat (- ?p)) CHR ''0'' @ ds) None"
        using False by (simp add: f)
      then show thesis
        using that [of "''0''" "replicate (nat (- ?p)) CHR ''0'' @ ds" None] pd(1) [OF 1] read(1) ds zeros
        by (simp add: is_digit_def pow10_def [of 0])
    next
      case 2
      then have "format_float x = make_literal (x < 0) (ds @ replicate (nat e) CHR ''0'') [] None"
        using False by (simp add: f)
      then show thesis
        using that [of "ds @ replicate (nat e) CHR ''0''" "[]" None] pd(2) [OF 2(2)] read(1) ds zeros lead
        by (simp add: pow10_def [of 0])
    next
      case 3
      then have "format_float x = make_literal (x < 0) (take (nat ?p) ds) (drop (nat ?p) ds) None"
        using False by (simp add: f)
      then show thesis
        using that [of "take (nat ?p) ds" "drop (nat ?p) ds" None] pd(3) [OF 3] read(1) ds parts lead 3
        by (simp add: pow10_def [of 0])
    qed
  qed
qed

text \<open>A double that is written is read back as itself.\<close>

lemma ParseFloat_format_float:
  assumes "float64_of_rat x = Some x"
  shows "ParseFloat (format_float x) = Some x"
proof (cases "x = 0")
  case True
  have "show_nat 0 = ''0''" by code_simp
  with True show ?thesis using ParseFloat_show_nat [of 0] by (simp add: format_float_def)
next
  case False
  obtain ip fd ex where l: "format_float x = make_literal (x < 0) ip fd ex"
    "list_all is_digit ip" "ip \<noteq> []" "list_all is_digit fd"
    "float64_of_rat (of_nat (digits_value 0 (ip @ fd)) / 10 ^ length fd *
       pow10 (case ex of None \<Rightarrow> 0 | Some k \<Rightarrow> k)) = Some \<bar>x\<bar>"
    by (rule format_float_literal [OF assms False])
  then show ?thesis
    using literal_value_make [OF l(2-4), of "x < 0" ex] float64_of_neg
    by (auto simp: ParseFloat_def)
qed

lemma p_num_format_float:
  assumes "float64_of_rat x = Some x"
  shows "p_num (format_float x) = Some (format_float x, [])"
proof (cases "x = 0")
  case True
  have "p_num ''0'' = Some (''0'', [])" by code_simp
  then show ?thesis using True by (simp add: format_float_def)
next
  case False
  obtain ip fd ex where "format_float x = make_literal (x < 0) ip fd ex"
    "list_all is_digit ip" "ip \<noteq> []" "list_all is_digit fd" "hd ip = CHR ''0'' \<longrightarrow> tl ip = []"
    by (rule format_float_literal [OF assms False])
  then show ?thesis using p_num_make by metis
qed

end
