(* ===== verification/Jira.thy ===== *)
theory Jira
  imports World Go_Float_Format "HOL-Library.AList"
begin

text \<open>
  \<open>internal/integration/jira\<close>: the error type with its retry classification, the
  response structs with their decoding, and the client's six calls. A call builds its
  request, sends it through \<open>http_do\<close> and reads the answer.

  The body of a request is the encoded document. Its encoding cannot fail: the documents hold
  texts and finite numbers only. The body of an answer is what the client can read of it.
\<close>

section \<open>types.go\<close>

definition maxErrorBodyBytes :: nat where "maxErrorBodyBytes = 4096"

definition IsNonRetryable :: "int \<Rightarrow> bool" where
  "IsNonRetryable StatusCode = (StatusCode \<in> {400, 404, 405, 409, 422})"

record TransitionTo =
  tt_Name :: go_string

record Transition =
  tr_ID :: go_string
  tr_Name :: go_string
  tr_To :: TransitionTo

record TransitionsResponse =
  rs_Transitions :: "Transition list"

record IssueStatus =
  is_Name :: go_string

record IssueFields =
  if_Status :: IssueStatus
  if_StoryPoints :: "rat option"

record IssueResponse =
  ir_Key :: go_string
  ir_Fields :: IssueFields

definition zero_transition :: Transition where
  "zero_transition = \<lparr>tr_ID = '''', tr_Name = '''', tr_To = \<lparr>tt_Name = ''''\<rparr>\<rparr>"

definition zero_issue :: IssueResponse where
  "zero_issue =
     \<lparr>ir_Key = '''', ir_Fields = \<lparr>if_Status = \<lparr>is_Name = ''''\<rparr>, if_StoryPoints = None\<rparr>\<rparr>"

fun dec_float :: "json \<Rightarrow> rat \<Rightarrow> rat option" where
  "dec_float (JNum lit) cur = ParseFloat lit"
| "dec_float JNull cur = Some cur"
| "dec_float _ cur = None"

definition to_field :: "TransitionTo \<Rightarrow> go_string \<Rightarrow> json \<Rightarrow> TransitionTo option" where
  "to_field t k v =
     (if name_matches ''name'' k then set_field (\<lambda>x. t\<lparr>tt_Name := x\<rparr>) (dec_string v (tt_Name t))
      else Some t)"

definition transition_field :: "Transition \<Rightarrow> go_string \<Rightarrow> json \<Rightarrow> Transition option" where
  "transition_field t k v =
     (if name_matches ''id'' k then set_field (\<lambda>x. t\<lparr>tr_ID := x\<rparr>) (dec_string v (tr_ID t))
      else if name_matches ''name'' k
      then set_field (\<lambda>x. t\<lparr>tr_Name := x\<rparr>) (dec_string v (tr_Name t))
      else if name_matches ''to'' k
      then set_field (\<lambda>x. t\<lparr>tr_To := x\<rparr>) (dec_struct to_field v (tr_To t))
      else Some t)"

definition transitions_field ::
    "TransitionsResponse \<Rightarrow> go_string \<Rightarrow> json \<Rightarrow> TransitionsResponse option" where
  "transitions_field r k v =
     (if name_matches ''transitions'' k
      then set_field (\<lambda>x. r\<lparr>rs_Transitions := x\<rparr>)
             (dec_slice (dec_struct transition_field) zero_transition v (rs_Transitions r))
      else Some r)"

definition status_field :: "IssueStatus \<Rightarrow> go_string \<Rightarrow> json \<Rightarrow> IssueStatus option" where
  "status_field s k v =
     (if name_matches ''name'' k then set_field (\<lambda>x. s\<lparr>is_Name := x\<rparr>) (dec_string v (is_Name s))
      else Some s)"

definition issue_fields_field :: "IssueFields \<Rightarrow> go_string \<Rightarrow> json \<Rightarrow> IssueFields option" where
  "issue_fields_field f k v =
     (if name_matches ''status'' k
      then set_field (\<lambda>x. f\<lparr>if_Status := x\<rparr>) (dec_struct status_field v (if_Status f))
      else if name_matches ''customfield_10027'' k
      then set_field (\<lambda>x. f\<lparr>if_StoryPoints := x\<rparr>) (dec_pointer dec_float 0 v (if_StoryPoints f))
      else Some f)"

definition issue_field :: "IssueResponse \<Rightarrow> go_string \<Rightarrow> json \<Rightarrow> IssueResponse option" where
  "issue_field r k v =
     (if name_matches ''key'' k then set_field (\<lambda>x. r\<lparr>ir_Key := x\<rparr>) (dec_string v (ir_Key r))
      else if name_matches ''fields'' k
      then set_field (\<lambda>x. r\<lparr>ir_Fields := x\<rparr>) (dec_struct issue_fields_field v (ir_Fields r))
      else Some r)"

text \<open>
  A value stored into an \<^verbatim>\<open>interface{}\<close>: its numbers must fit into a double.
\<close>

fun numbers_ok :: "json \<Rightarrow> bool" where
  "numbers_ok (JNum lit) = (ParseFloat lit \<noteq> None)"
| "numbers_ok (JArr vs) = list_all numbers_ok vs"
| "numbers_ok (JObj ms) = list_all (\<lambda>(k, v). numbers_ok v) ms"
| "numbers_ok _ = True"

text \<open>A map of dynamic values: null empties it, an object's members are added to it.\<close>

definition dec_map :: "json \<Rightarrow> (go_string \<rightharpoonup> json) \<Rightarrow> (go_string \<rightharpoonup> json) option" where
  "dec_map v cur =
     (case v of
        JNull \<Rightarrow> Some Map.empty
      | JObj ms \<Rightarrow> if numbers_ok v then Some (fold (\<lambda>(k, x) m. m(k \<mapsto> x)) ms cur) else None
      | _ \<Rightarrow> None)"

definition fields_field :: "(go_string \<rightharpoonup> json) \<Rightarrow> go_string \<Rightarrow> json \<Rightarrow> (go_string \<rightharpoonup> json) option" where
  "fields_field cur k v = (if name_matches ''fields'' k then dec_map v cur else Some cur)"

definition decode_body ::
    "('r \<Rightarrow> go_string \<Rightarrow> json \<Rightarrow> 'r option) \<Rightarrow> 'r \<Rightarrow> go_string \<Rightarrow> 'r result" where
  "decode_body field zero body =
     (case json_decode_first body of
        None \<Rightarrow> Inl (Errorf ''json'')
      | Some v \<Rightarrow> (case dec_struct field v zero of None \<Rightarrow> Inl (Errorf ''json'') | Some r \<Rightarrow> Inr r))"

text \<open>
  A \<open>map[string]interface{}\<close> of texts and numbers: pairs with distinct keys. The fields of a
  transition are left out when there are none; a nil map of an update is written as null.
\<close>

datatype field_value = FText go_string | FNum rat

type_synonym fields = "(go_string \<times> field_value) list"

primrec field_json :: "field_value \<Rightarrow> json" where
  "field_json (FText s) = JStr s"
| "field_json (FNum x) = JNum (format_float x)"

definition fields_json :: "fields \<Rightarrow> json" where
  "fields_json fs = JObj (sort_key fst (map (apsnd field_json) fs))"

definition TransitionRequest :: "go_string \<Rightarrow> fields \<Rightarrow> json" where
  "TransitionRequest transitionID fs =
     JObj ((''transition'', JObj [(''id'', JStr transitionID)]) #
       (if fs = [] then [] else [(''fields'', fields_json fs)]))"

section \<open>client.go\<close>

record Client =
  cl_baseURL :: go_string
  cl_username :: go_string
  cl_apiToken :: go_string

definition NewClient :: "go_string \<Rightarrow> go_string \<Rightarrow> go_string \<Rightarrow> Client" where
  "NewClient baseURL username apiToken =
     \<lparr>cl_baseURL = baseURL, cl_username = username, cl_apiToken = apiToken\<rparr>"

definition issue_url :: "Client \<Rightarrow> go_string \<Rightarrow> go_string \<Rightarrow> go_string" where
  "issue_url c issueKey rest = cl_baseURL c @ ''/rest/api/2/issue/'' @ issueKey @ rest"

text \<open>The part every call has: build the request, set the credentials, send it.\<close>

definition send ::
    "env \<Rightarrow> Client \<Rightarrow> go_string \<Rightarrow> go_string \<Rightarrow> go_string option \<Rightarrow> go_string option \<Rightarrow> go_string
      \<Rightarrow> world \<Rightarrow> http_response result \<times> world" where
  "send env c method url ctype body what w =
     (if \<not> url_valid env url
      then (Inl (Wrap (''create '' @ what @ '' request'') (Errorf ''invalid URL'')), w)
      else wrap_err (''execute '' @ what @ '' request'')
        (http_do env
           \<lparr>hq_Method = method, hq_URL = url, hq_ContentType = ctype,
            hq_BasicAuth = (cl_username c, cl_apiToken c), hq_Body = body\<rparr> w))"

definition http_error :: "http_response \<Rightarrow> go_error" where
  "http_error resp = JiraHTTPError (hr_StatusCode resp) (take maxErrorBodyBytes (hr_Body resp))"

text \<open>A call that expects 204 and no content.\<close>

definition expect_no_content :: "http_response result \<times> world \<Rightarrow> unit result \<times> world" where
  "expect_no_content r =
     (case r of
        (Inl e, w) \<Rightarrow> (Inl e, w)
      | (Inr resp, w) \<Rightarrow>
          if hr_StatusCode resp \<noteq> 204 then (Inl (http_error resp), w) else (Inr (), w))"

text \<open>A call that expects 200 and a document, which it decodes and reads.\<close>

definition expect_document ::
    "('r \<Rightarrow> go_string \<Rightarrow> json \<Rightarrow> 'r option) \<Rightarrow> 'r \<Rightarrow> go_string \<Rightarrow> ('r \<Rightarrow> 'a)
      \<Rightarrow> http_response result \<times> world \<Rightarrow> 'a result \<times> world" where
  "expect_document field zero what read r =
     (case r of
        (Inl e, w) \<Rightarrow> (Inl e, w)
      | (Inr resp, w) \<Rightarrow>
          if hr_StatusCode resp \<noteq> 200 then (Inl (http_error resp), w)
          else (case decode_body field zero (hr_Body resp) of
                  Inl e \<Rightarrow> (Inl (Wrap (''decode '' @ what @ '' response'') e), w)
                | Inr x \<Rightarrow> (Inr (read x), w)))"

definition TransitionIssueWithFields ::
    "env \<Rightarrow> Client \<Rightarrow> go_string \<Rightarrow> go_string \<Rightarrow> fields \<Rightarrow> world \<Rightarrow> unit result \<times> world" where
  "TransitionIssueWithFields env c issueKey transitionID fs w =
     expect_no_content
       (send env c ''POST'' (issue_url c issueKey ''/transitions'') (Some ''application/json'')
          (Some (marshal (TransitionRequest transitionID fs))) ''transition'' w)"

definition TransitionIssue ::
    "env \<Rightarrow> Client \<Rightarrow> go_string \<Rightarrow> go_string \<Rightarrow> world \<Rightarrow> unit result \<times> world" where
  "TransitionIssue env c issueKey transitionID w =
     TransitionIssueWithFields env c issueKey transitionID [] w"

definition UpdateIssueFields ::
    "env \<Rightarrow> Client \<Rightarrow> go_string \<Rightarrow> fields option \<Rightarrow> world \<Rightarrow> unit result \<times> world" where
  "UpdateIssueFields env c issueKey fs w =
     expect_no_content
       (send env c ''PUT'' (issue_url c issueKey '''') (Some ''application/json'')
          (Some (marshal_map [(''fields'', case fs of None \<Rightarrow> JNull | Some m \<Rightarrow> fields_json m)]))
          ''update'' w)"

text \<open>A missing field, null, or a value that is not a number counts as one point.\<close>

definition points_of :: "go_string \<Rightarrow> (go_string \<rightharpoonup> json) \<Rightarrow> rat" where
  "points_of storyPointsField fs =
     (case fs storyPointsField of
        Some (JNum lit) \<Rightarrow> (case ParseFloat lit of None \<Rightarrow> 1 | Some x \<Rightarrow> x)
      | _ \<Rightarrow> 1)"

definition GetStoryPoints ::
    "env \<Rightarrow> Client \<Rightarrow> go_string \<Rightarrow> go_string \<Rightarrow> world \<Rightarrow> rat result \<times> world" where
  "GetStoryPoints env c issueKey storyPointsField w =
     expect_document fields_field Map.empty ''story points'' (points_of storyPointsField)
       (send env c ''GET'' (issue_url c issueKey (''?fields='' @ storyPointsField)) None None
          ''get story points'' w)"

definition GetIssueStatus :: "env \<Rightarrow> Client \<Rightarrow> go_string \<Rightarrow> world \<Rightarrow> go_string result \<times> world" where
  "GetIssueStatus env c issueKey w =
     expect_document issue_field zero_issue ''issue'' (\<lambda>r. is_Name (if_Status (ir_Fields r)))
       (send env c ''GET'' (issue_url c issueKey ''?fields=status'') None None ''get issue'' w)"

definition GetTransitions ::
    "env \<Rightarrow> Client \<Rightarrow> go_string \<Rightarrow> world \<Rightarrow> Transition list result \<times> world" where
  "GetTransitions env c issueKey w =
     expect_document transitions_field \<lparr>rs_Transitions = []\<rparr> ''transitions'' rs_Transitions
       (send env c ''GET'' (issue_url c issueKey ''/transitions'') None None ''get transitions'' w)"

section \<open>The client as a port\<close>

text \<open>
  What the worker relies on when it calls out: the call may send requests and nothing
  else; the tables, the handlers and the identifiers drawn are as before.
\<close>

definition sends_only :: "world \<Rightarrow> world \<Rightarrow> bool" where
  "sends_only w w' =
     (w_db w' = w_db w \<and> same_setup w w' \<and> n_uuid w' = n_uuid w \<and> n_db w' = n_db w \<and>
      (\<exists>qs. w_trace w' = w_trace w @ map HttpSent qs))"

locale outside_call =
  fixes call :: "'c \<Rightarrow> world \<Rightarrow> 'a result \<times> world"
  assumes call_sends_only: "sends_only w (snd (call c w))"
begin

lemma call_tables: "w_db (snd (call c w)) = w_db w"
  using call_sends_only [of w c] by (simp add: sends_only_def)

lemma call_setup: "same_setup w (snd (call c w))"
  using call_sends_only [of w c] by (simp add: sends_only_def)

lemma calls_send_only: "sends_only w (fold (\<lambda>c w. snd (call c w)) cs w)"
proof (induction cs arbitrary: w)
  case (Cons c cs)
  from Cons [of "snd (call c w)"] call_sends_only [of w c] show ?case
    by (auto simp: sends_only_def same_setup_def intro: exI [where x = "_ @ _"])
qed (simp add: sends_only_def)

end

lemma sends_only_refl [simp]: "sends_only w w"
  by (simp add: sends_only_def)

lemma sends_only_trans [trans]: "sends_only u v \<Longrightarrow> sends_only v w \<Longrightarrow> sends_only u w"
  unfolding sends_only_def same_setup_def by (metis append_assoc map_append)

lemma send_sends_only: "sends_only w (snd (send env c m u t b what w))"
  by (auto simp: send_def wrap_err_def http_do_def sends_only_def same_setup_def emit_def
      intro: exI [where x = "[_]"] split: sum.splits)

lemma snd_expect [simp]:
  "snd (expect_no_content r) = snd r" "snd (expect_document f z what rd r) = snd r"
  by (auto simp: expect_no_content_def expect_document_def split: prod.splits sum.splits)

lemmas client_defs =
  TransitionIssue_def TransitionIssueWithFields_def UpdateIssueFields_def GetStoryPoints_def
  GetIssueStatus_def GetTransitions_def

interpretation jira_transition: outside_call
  "\<lambda>(c, key, tid, fs). TransitionIssueWithFields env c key tid fs" for env
  by standard (auto simp: client_defs send_sends_only)

interpretation jira_points: outside_call "\<lambda>(c, key, f). GetStoryPoints env c key f" for env
  by standard (auto simp: client_defs send_sends_only)

interpretation jira_update: outside_call "\<lambda>(c, key, fs). UpdateIssueFields env c key fs" for env
  by standard (auto simp: client_defs send_sends_only)

lemma client_sends_only [simp]:
  "sends_only w (snd (TransitionIssue env c key tid w))"
  "sends_only w (snd (TransitionIssueWithFields env c key tid fs w))"
  "sends_only w (snd (GetStoryPoints env c key f w))"
  using jira_transition.call_sends_only [of w env "(c, key, tid, fs)"]
    jira_transition.call_sends_only [of w env "(c, key, tid, [])"]
    jira_points.call_sends_only [of w env "(c, key, f)"]
  by (simp_all add: TransitionIssue_def)

lemma client_sends_onlyD:
  "TransitionIssue env c key tid w = (r, w') \<Longrightarrow> sends_only w w'"
  "TransitionIssueWithFields env c key tid fs w = (r, w') \<Longrightarrow> sends_only w w'"
  "GetStoryPoints env c key f w = (x, w') \<Longrightarrow> sends_only w w'"
  using client_sends_only [of w env] by (metis snd_conv)+

definition points_request :: "Client \<Rightarrow> go_string \<Rightarrow> go_string \<Rightarrow> http_request" where
  "points_request c issueKey field =
     \<lparr>hq_Method = ''GET'', hq_URL = issue_url c issueKey (''?fields='' @ field),
      hq_ContentType = None, hq_BasicAuth = (cl_username c, cl_apiToken c), hq_Body = None\<rparr>"

lemma send_answered:
  assumes "url_valid env url" and "http_at env (n_http w) \<lparr>hq_Method = m, hq_URL = url,
      hq_ContentType = t, hq_BasicAuth = (cl_username c, cl_apiToken c), hq_Body = b\<rparr> = Inr resp"
  obtains w' where "send env c m url t b what w = (Inr resp, w')"
  using assms by (simp add: send_def wrap_err_def http_do_def)

lemma GetStoryPoints_answered:
  assumes "url_valid env (hq_URL (points_request c key f))"
    "http_at env (n_http w) (points_request c key f) = Inr resp"
  shows "fst (GetStoryPoints env c key f w) =
    (if hr_StatusCode resp \<noteq> 200 then Inl (http_error resp)
     else case decode_body fields_field Map.empty (hr_Body resp) of
       Inl e \<Rightarrow> Inl (Wrap ''decode story points response'' e) | Inr fs \<Rightarrow> Inr (points_of f fs))"
proof -
  obtain w' where "send env c ''GET'' (issue_url c key (''?fields='' @ f)) None None
      ''get story points'' w = (Inr resp, w')"
    using assms by (auto simp: points_request_def elim: send_answered)
  then show ?thesis
    by (simp add: GetStoryPoints_def expect_document_def split: sum.split)
qed

section \<open>Properties\<close>

text \<open>
  C30. A read of the story points that Jira answers with a document is the number the
  configured field holds, exactly for whole numbers below 2 to the 53, and one point when the
  field is missing, null or no number; any other status is an error that carries the status
  and at most 4096 bytes of the body.
\<close>

theorem story_points_read:
  assumes "url_valid env (hq_URL (points_request c key f))"
    and "http_at env (n_http w) (points_request c key f) = Inr resp"
  shows "(\<forall>fs. hr_StatusCode resp = 200 \<longrightarrow>
       decode_body fields_field Map.empty (hr_Body resp) = Inr fs \<longrightarrow>
       (\<forall>n < 9007199254740992. fs f = Some (JNum (show_nat n)) \<longrightarrow>
          fst (GetStoryPoints env c key f w) = Inr (of_nat n)) \<and>
       ((\<forall>lit. fs f \<noteq> Some (JNum lit)) \<longrightarrow> fst (GetStoryPoints env c key f w) = Inr 1)) \<and>
     (hr_StatusCode resp \<noteq> 200 \<longrightarrow>
       (\<exists>b. fst (GetStoryPoints env c key f w) = Inl (JiraHTTPError (hr_StatusCode resp) b) \<and>
         length b \<le> 4096))"
  by (simp add: GetStoryPoints_answered [OF assms] points_of_def ParseFloat_show_nat http_error_def
      maxErrorBodyBytes_def split: option.split json.split)

definition points_env :: env where
  "points_env = sample_env\<lparr>http_at :=
     (\<lambda>n q. Inr \<lparr>hr_StatusCode = 200, hr_Body = quoted ''{~fields~:{~sp~:5,~x~:null}}''\<rparr>)\<rparr>"

theorem story_points_read_witness:
  "fst (GetStoryPoints points_env (NewClient ''u'' ''n'' ''t'') ''RIS-1'' ''sp'' empty_world) = Inr 5 \<and>
   fst (GetStoryPoints points_env (NewClient ''u'' ''n'' ''t'') ''RIS-1'' ''x'' empty_world) = Inr 1"
proof -
  let ?c = "NewClient ''u'' ''n'' ''t''"
  have v: "url_valid points_env u" "http_at points_env n q =
      Inr \<lparr>hr_StatusCode = 200, hr_Body = quoted ''{~fields~:{~sp~:5,~x~:null}}''\<rparr>" for u n q
    by (simp_all add: points_env_def)
  have parse: "json_decode_first (quoted ''{~fields~:{~sp~:5,~x~:null}}'') =
      Some (JObj [(''fields'', JObj [(''sp'', JNum (show_nat 5)), (''x'', JNull)])])"
    by code_simp
  have "numbers_ok (JObj [(''sp'', JNum (show_nat 5)), (''x'', JNull)])"
    by (simp add: ParseFloat_show_nat)
  then have d: "decode_body fields_field Map.empty (quoted ''{~fields~:{~sp~:5,~x~:null}}'') =
      Inr [''sp'' \<mapsto> JNum (show_nat 5), ''x'' \<mapsto> JNull]"
    by (simp add: decode_body_def parse fields_field_def name_matches_def dec_map_def
        del: numbers_ok.simps)
  show ?thesis
    using story_points_read [OF v(1) v(2), where c = ?c and key = "''RIS-1''" and f = "''sp''"
        and w = empty_world]
      story_points_read [OF v(1) v(2), where c = ?c and key = "''RIS-1''" and f = "''x''"
        and w = empty_world] d
    by (auto dest: spec [of _ 5])
qed

end
