(* ===== verification/Executor.thy ===== *)
theory Executor
  imports Jira Workflow Config
begin

text \<open>
  \<open>internal/worker/executor.go\<close>: what one job asks of Jira. A job of the only known type
  is a transition; the one to In Progress carries a start date, a due date and the story
  points. An \<open>error\<close> result is \<open>None\<close> for nil.
\<close>

record Executor =
  ex_jira :: Client
  ex_resolver :: Resolver
  ex_inProgress :: InProgressConfig

definition NewExecutor :: "Client \<Rightarrow> Resolver \<Rightarrow> InProgressConfig \<Rightarrow> Executor" where
  "NewExecutor c r p = \<lparr>ex_jira = c, ex_resolver = r, ex_inProgress = p\<rparr>"

definition local_time :: "env \<Rightarrow> instant \<Rightarrow> go_time" where
  "local_time env n = \<lparr>unix_nanos = n, zone_offset = local_zone env\<rparr>"

definition transition_fields :: "InProgressConfig \<Rightarrow> rat \<Rightarrow> go_time \<Rightarrow> go_time \<Rightarrow> fields" where
  "transition_fields cfg storyPoints today dueDate =
     AList.update (DueDateField cfg) (FText (Format_date dueDate))
       (AList.update (StartDateField cfg) (FText (Format_date today))
         (AList.update (StoryPointsField cfg) (FNum storyPoints) []))"

definition story_points :: "env \<Rightarrow> Executor \<Rightarrow> Job \<Rightarrow> world \<Rightarrow> rat \<times> world" where
  "story_points env e job w =
     (if DueDateStrategy (ex_inProgress e) = StrategyStoryPoints then
        (case GetStoryPoints env (ex_jira e) (job_IssueKey job)
                (StoryPointsField (ex_inProgress e)) w of
           (Inr sp, w1) \<Rightarrow> (sp, w1)
         | (Inl err, w1) \<Rightarrow> (1, w1))
      else (1, w))"

definition executeInProgressTransition ::
    "env \<Rightarrow> Executor \<Rightarrow> Job \<Rightarrow> world \<Rightarrow> go_error option \<times> world" where
  "executeInProgressTransition env e job w =
     (let cfg = ex_inProgress e in
      if TransitionID cfg = '''' then (None, w)
      else
        let (storyPoints, w1) = story_points env e job w;
            (now, w2) = Now env w1; t = local_time env now
        in case CalculateDueDate (DueDateStrategy cfg) (SprintEndWeekday cfg) storyPoints t of
             Inl err \<Rightarrow> (Some (Wrap ''calculate due date'' err), w2)
           | Inr dueDate \<Rightarrow>
               (case TransitionIssueWithFields env (ex_jira e) (job_IssueKey job)
                       (TransitionID cfg) (transition_fields cfg storyPoints t dueDate) w2 of
                  (Inl err, w3) \<Rightarrow>
                    (Some (Wrap (''transition issue '' @ job_IssueKey job @ '' to in_progress'') err), w3)
                | (Inr _, w3) \<Rightarrow> (None, w3)))"

definition executeJiraTransition ::
    "env \<Rightarrow> Executor \<Rightarrow> Job \<Rightarrow> world \<Rightarrow> go_error option \<times> world" where
  "executeJiraTransition env e job w =
     (if TargetState job = StateInProgress then executeInProgressTransition env e job w
      else
        (case ResolveTransitionID (ex_resolver e) (TargetState job) of
           Inl err \<Rightarrow> (None, w)
         | Inr transitionID \<Rightarrow>
             (case TransitionIssue env (ex_jira e) (job_IssueKey job) transitionID w of
                (Inl err, w1) \<Rightarrow>
                  (Some (Wrap (''transition issue '' @ job_IssueKey job @ '' to '' @
                      WorkflowState_str (TargetState job) @ '' (id '' @ transitionID @ '')'') err), w1)
              | (Inr _, w1) \<Rightarrow> (None, w1))))"

definition Execute :: "env \<Rightarrow> Executor \<Rightarrow> Job \<Rightarrow> world \<Rightarrow> go_error option \<times> world" where
  "Execute env e job w =
     (case job_Type job of
        JobJiraTransition \<Rightarrow> executeJiraTransition env e job w
      | _ \<Rightarrow> (Some (Errorf (''unknown job type: '' @ quote (JobType_str (job_Type job)))), w))"

section \<open>Facts\<close>

lemma Now_sends_only [simp]: "sends_only w (snd (Now env w))"
  by (simp add: Now_def sends_only_def same_setup_def)

lemma NowD_sends_only: "Now env w = (t, w') \<Longrightarrow> sends_only w w'"
  using Now_sends_only [of w env] by simp

lemmas sends_onlyD = client_sends_onlyD NowD_sends_only

lemma story_points_sends_only: "story_points env e job w = (x, w') \<Longrightarrow> sends_only w w'"
  by (auto simp: story_points_def dest: sends_onlyD split: prod.splits sum.splits if_splits)

lemma executeInProgress_sends_only:
  assumes "executeInProgressTransition env e job w = (r, w')"
  shows "sends_only w w'"
proof (cases "TransitionID (ex_inProgress e) = ''''")
  case False
  obtain sp w1 where 1: "story_points env e job w = (sp, w1)" by fastforce
  obtain n w2 where 2: "Now env w1 = (n, w2)" by fastforce
  have w2: "sends_only w w2"
    using sends_only_trans [OF story_points_sends_only [OF 1] NowD_sends_only [OF 2]] .
  show ?thesis
    using assms False w2 sends_only_trans [OF w2]
    by (auto simp: executeInProgressTransition_def Let_def 1 2 dest: sends_onlyD
        split: prod.splits sum.splits)
qed (use assms in \<open>simp add: executeInProgressTransition_def Let_def\<close>)

lemma Execute_sends_only:
  assumes "Execute env e job w = (r, w')"
  shows "sends_only w w'"
  using assms
  by (auto simp: Execute_def executeJiraTransition_def
      dest: sends_onlyD executeInProgress_sends_only
      split: JobType.splits sum.splits prod.splits if_splits)

text \<open>The request that moves an issue, and what its answer makes of the call.\<close>

definition transition_request :: "Client \<Rightarrow> go_string \<Rightarrow> go_string \<Rightarrow> http_request" where
  "transition_request c issueKey body =
     \<lparr>hq_Method = ''POST'', hq_URL = issue_url c issueKey ''/transitions'',
      hq_ContentType = Some ''application/json'', hq_BasicAuth = (cl_username c, cl_apiToken c),
      hq_Body = Some body\<rparr>"

definition transition_answer :: "http_response result \<Rightarrow> go_error option" where
  "transition_answer a =
     (case a of
        Inl e \<Rightarrow> Some (Wrap ''execute transition request'' e)
      | Inr r \<Rightarrow> if hr_StatusCode r = 204 then None else Some (http_error r))"

definition err_of :: "'a result \<Rightarrow> go_error option" where
  "err_of r = (case r of Inl e \<Rightarrow> Some e | Inr _ \<Rightarrow> None)"

lemma TransitionIssueWithFields_valid:
  assumes "url_valid env (issue_url c key ''/transitions'')"
  shows "w_trace (snd (TransitionIssueWithFields env c key tid fs w)) =
      w_trace w @ [HttpSent (transition_request c key (marshal (TransitionRequest tid fs)))]"
    "err_of (fst (TransitionIssueWithFields env c key tid fs w)) =
      transition_answer (http_at env (n_http w)
        (transition_request c key (marshal (TransitionRequest tid fs))))"
  using assms by (auto simp: TransitionIssueWithFields_def send_def wrap_err_def http_do_def emit_def
      expect_no_content_def transition_request_def transition_answer_def err_of_def
      split: sum.splits)

lemma Execute_transition:
  assumes "job_Type job = JobJiraTransition" "TargetState job \<noteq> StateInProgress"
    and "transitions (ex_resolver e) (WorkflowState_str (TargetState job)) = Some tid" "tid \<noteq> ''''"
  shows "fst (Execute env e job w) =
      map_option (Wrap (''transition issue '' @ job_IssueKey job @ '' to '' @
        WorkflowState_str (TargetState job) @ '' (id '' @ tid @ '')''))
        (err_of (fst (TransitionIssue env (ex_jira e) (job_IssueKey job) tid w)))"
    "snd (Execute env e job w) = snd (TransitionIssue env (ex_jira e) (job_IssueKey job) tid w)"
  using assms
  by (auto simp: Execute_def executeJiraTransition_def ResolveTransitionID_def err_of_def
      split: prod.split sum.split)

section \<open>What the bodies say\<close>

lemma transition_body:
  "json_parse (marshal (TransitionRequest tid [])) =
    Some (JObj [(''transition'', JObj [(''id'', JStr (utf8_fix tid))])])"
proof -
  have "utf8_fix ''transition'' = ''transition''" "utf8_fix ''id'' = ''id''" by code_simp+
  then show ?thesis
    using parse_marshal [of "TransitionRequest tid []" "[]"]
    by (simp add: TransitionRequest_def max_nesting_depth_def)
qed

lemma Format_date_utf8: "utf8_ok (Format_date t)"
proof -
  have n: "list_all (\<lambda>c. char_code c < 128) (show_int i)" for i
    using show_nat_digits [of "nat i"] show_nat_digits [of "nat (- i)"]
    by (auto simp: show_int_def list_all_iff is_digit_def)
  have "list_all (\<lambda>c. char_code c < 128) (pad_zero k s)"
    if "list_all (\<lambda>c. char_code c < 128) s" for k s
    using that by (induction k) auto
  with n show ?thesis by (intro utf8_ok_ascii) (simp add: Format_date_def Let_def)
qed

lemma map_of_sort_key: "distinct (map fst xs) \<Longrightarrow> map_of (sort_key fst xs) = map_of xs"
proof -
  assume d: "distinct (map fst xs)"
  then have "distinct (map fst (sort_key fst xs))" by (simp add: distinct_map)
  with d show ?thesis by (simp add: map_of_inject_set)
qed

text \<open>The fields of an In Progress transition, as they are read from the body.\<close>

lemma in_progress_body:
  assumes "list_all utf8_ok [tid, StoryPointsField cfg, StartDateField cfg, DueDateField cfg]"
    and "float64_of_rat sp = Some sp"
  obtains ms where "json_parse (marshal (TransitionRequest tid (transition_fields cfg sp t d))) =
      Some (JObj [(''transition'', JObj [(''id'', JStr tid)]), (''fields'', JObj ms)])"
    "map_of ms = [StoryPointsField cfg \<mapsto> JNum (format_float sp),
      StartDateField cfg \<mapsto> JStr (Format_date t), DueDateField cfg \<mapsto> JStr (Format_date d)]"
proof -
  let ?fs = "transition_fields cfg sp t d"
  define ms where "ms = sort_key fst (map (apsnd field_json) ?fs)"
  have names: "utf8_fix ''transition'' = ''transition''" "utf8_fix ''id'' = ''id''"
    "utf8_fix ''fields'' = ''fields''"
    by code_simp+
  have fs: "?fs \<noteq> []" "distinct (map fst ?fs)"
    by (auto simp: transition_fields_def intro!: distinct_update)
  have mem: "(k, v) \<in> set ?fs \<Longrightarrow> utf8_ok k \<and>
      v \<in> {FNum sp, FText (Format_date t), FText (Format_date d)}" for k v
    using assms(1) by (auto simp: transition_fields_def split: if_splits)
  have vals: "numbers_read (field_json v)" "nesting (field_json v) = 0" "fix_json (field_json v) = field_json v"
    if "v \<in> {FNum sp, FText (Format_date t), FText (Format_date d)}" for v
    using that p_num_format_float [OF assms(2)] Format_date_utf8 by (auto simp: utf8_fix_valid)
  have m: "utf8_ok k \<and> numbers_read j \<and> nesting j = 0 \<and> fix_json j = j" if "(k, j) \<in> set ms" for k j
  proof -
    note hit = that
    obtain v where "(k, v) \<in> set ?fs" "j = field_json v" using hit by (auto simp: ms_def)
    with mem [of k v] vals [of v] show ?thesis by simp
  qed
  have "numbers_read (JObj ms)" using m by (auto simp: list_all_iff)
  moreover have "nesting (JObj ms) \<le> 2" using m by (auto simp: fold_max_le)
  moreover have "map (\<lambda>(k, v). (utf8_fix k, fix_json v)) ms = ms"
    by (rule map_idI) (use m in \<open>auto simp: utf8_fix_valid\<close>)
  moreover have v: "TransitionRequest tid ?fs =
      JObj [(''transition'', JObj [(''id'', JStr tid)]), (''fields'', JObj ms)]"
    using fs(1) by (simp add: TransitionRequest_def fields_json_def ms_def)
  ultimately have "numbers_read (TransitionRequest tid ?fs)"
    "nesting (TransitionRequest tid ?fs) \<le> max_nesting_depth"
    "fix_json (TransitionRequest tid ?fs) = TransitionRequest tid ?fs"
    using names assms(1) by (simp_all add: v max_nesting_depth_def utf8_fix_valid)
  from parse_marshal [OF this(1,2), of "[]"] this(3)
  have "json_parse (marshal (TransitionRequest tid ?fs)) =
      Some (JObj [(''transition'', JObj [(''id'', JStr tid)]), (''fields'', JObj ms)])"
    unfolding append_Nil2 v by simp
  moreover have "distinct (map fst (map (apsnd field_json) ?fs))" using fs(2) by (simp add: comp_def)
  then have "map_of ms = map_of (map (apsnd field_json) ?fs)"
    unfolding ms_def by (rule map_of_sort_key)
  then have "map_of ms = map_option field_json \<circ> map_of ?fs"
    by (simp add: apsnd_def map_prod_def map_of_map)
  then have "map_of ms = [StoryPointsField cfg \<mapsto> JNum (format_float sp),
      StartDateField cfg \<mapsto> JStr (Format_date t), DueDateField cfg \<mapsto> JStr (Format_date d)]"
    by (auto simp: transition_fields_def update_conv' fun_eq_iff)
  ultimately show thesis by (rule that)
qed

lemma points_of_double: "float64_of_rat (points_of f fs) = Some (points_of f fs)"
  using float64_of_nat [of 1]
  by (auto simp: points_of_def dest: ParseFloat_double split: option.split json.split)

lemma GetStoryPoints_double:
  "GetStoryPoints env c key f w = (Inr sp, w') \<Longrightarrow> float64_of_rat sp = Some sp"
  by (auto simp: GetStoryPoints_def expect_document_def points_of_double
      split: prod.splits sum.splits if_splits)

lemma story_points_double:
  "story_points env e job w = (sp, w') \<Longrightarrow> float64_of_rat sp = Some sp"
  using float64_of_nat [of 1]
  by (auto simp: story_points_def dest: GetStoryPoints_double split: prod.splits sum.splits if_splits)

section \<open>Properties\<close>

text \<open>
  C28. A transition to any state but In Progress that is configured sends exactly one request,
  a POST to the issue's transitions whose JSON body holds the transition id and no fields; the
  job succeeds exactly when the answer is 204, and another status is an error that carries the status and
  at most 4096 bytes of the body.
\<close>

theorem execute_sends_one_transition:
  assumes "job_Type job = JobJiraTransition" "TargetState job \<noteq> StateInProgress"
    and "transitions (ex_resolver e) (WorkflowState_str (TargetState job)) = Some tid" "tid \<noteq> ''''"
    and "url_valid env (issue_url (ex_jira e) (job_IssueKey job) ''/transitions'')"
  defines "b \<equiv> marshal (TransitionRequest tid [])"
  defines "q \<equiv> transition_request (ex_jira e) (job_IssueKey job) b"
  shows "json_parse b = Some (JObj [(''transition'', JObj [(''id'', JStr (utf8_fix tid))])]) \<and>
    w_trace (snd (Execute env e job w)) = w_trace w @ [HttpSent q] \<and>
    (fst (Execute env e job w) = None \<longleftrightarrow>
       (\<exists>r. http_at env (n_http w) q = Inr r \<and> hr_StatusCode r = 204)) \<and>
    (\<forall>r. http_at env (n_http w) q = Inr r \<longrightarrow> hr_StatusCode r \<noteq> 204 \<longrightarrow>
       (\<exists>err. fst (Execute env e job w) = Some err \<and>
          as_jira err = Some (hr_StatusCode r, take 4096 (hr_Body r))))"
  using Execute_transition [OF assms(1-4), of env w]
    TransitionIssueWithFields_valid [OF assms(5), of tid "[]" w]
    transition_body [of tid]
  by (auto simp: TransitionIssue_def b_def q_def transition_answer_def http_error_def
      maxErrorBodyBytes_def split: sum.splits if_splits)

definition sample_executor :: Executor where
  "sample_executor =
     NewExecutor (NewClient ''u'' ''n'' ''t'') (NewResolver [''done'' \<mapsto> ''31''])
       \<lparr>TransitionID = ''21'', DueDateStrategy = ''story_points'', SprintEndWeekday = ''friday'',
        StartDateField = ''start'', DueDateField = ''due'', StoryPointsField = ''sp''\<rparr>"

definition sample_job :: Job where
  "sample_job = \<lparr>job_ID = ''j'', job_EventID = ''e'', job_Type = JobJiraTransition,
     job_Status = JobPending, job_IssueKey = ''RIS-1'', TargetState = StateDone,
     job_Payload = ''{}'', Attempts = 0, MaxAttempts = 5, LastError = '''', NextRunAt = 0,
     job_CreatedAt = 0, CompletedAt = None\<rparr>"

theorem execute_sends_one_transition_witness:
  "w_trace (snd (Execute sample_env sample_executor sample_job empty_world)) =
     [HttpSent (transition_request (ex_jira sample_executor) ''RIS-1''
        (marshal (TransitionRequest ''31'' [])))] \<and>
   fst (Execute sample_env sample_executor sample_job empty_world) = None"
  using execute_sends_one_transition [of sample_job sample_executor "''31''" sample_env empty_world]
  by (simp add: sample_job_def sample_executor_def NewExecutor_def NewResolver_def)

text \<open>
  A job whose transition is not configured, or whose In Progress transition has no id,
  succeeds without any request; a job of an unknown type fails without any request.
\<close>

lemma unconfigured_jobs_send_nothing:
  assumes "job_Type job \<noteq> JobJiraTransition \<or>
    TargetState job = StateInProgress \<and> TransitionID (ex_inProgress e) = '''' \<or>
    TargetState job \<noteq> StateInProgress \<and>
      transitions (ex_resolver e) (WorkflowState_str (TargetState job)) \<in> {None, Some ''''}"
  shows "snd (Execute env e job w) = w \<and>
    (fst (Execute env e job w) = None \<longleftrightarrow> job_Type job = JobJiraTransition)"
  using assms
  by (cases "job_Type job") (auto simp: Execute_def executeJiraTransition_def
      executeInProgressTransition_def ResolveTransitionID_def)

text \<open>
  C29. The In Progress transition carries the story points, the day of the call as the start
  date and the due date of the strategy counted from that same day: its JSON body decodes to the
  transition id and these fields, the points to the very number that was read; when the story
  points cannot be read they count as one and the transition is sent all the same.
\<close>

theorem in_progress_request:
  assumes "job_Type job = JobJiraTransition" "TargetState job = StateInProgress"
    and "TransitionID (ex_inProgress e) \<noteq> ''''"
    and "url_valid env (issue_url (ex_jira e) (job_IssueKey job) ''/transitions'')"
    and "story_points env e job w = (sp, w1)"
  defines "cfg \<equiv> ex_inProgress e"
  defines "t \<equiv> local_time env (clock_at env (n_clock w1))"
  assumes "CalculateDueDate (DueDateStrategy cfg) (SprintEndWeekday cfg) sp t = Inr d"
    and "list_all utf8_ok [TransitionID cfg, StoryPointsField cfg, StartDateField cfg, DueDateField cfg]"
  shows "(\<exists>b ms lit. w_trace (snd (Execute env e job w)) =
        w_trace w1 @ [HttpSent (transition_request (ex_jira e) (job_IssueKey job) b)] \<and>
      json_parse b = Some (JObj [(''transition'', JObj [(''id'', JStr (TransitionID cfg))]),
        (''fields'', JObj ms)]) \<and>
      map_of ms = [StoryPointsField cfg \<mapsto> JNum lit, StartDateField cfg \<mapsto> JStr (Format_date t),
        DueDateField cfg \<mapsto> JStr (Format_date d)] \<and>
      ParseFloat lit = Some sp) \<and>
    (fst (GetStoryPoints env (ex_jira e) (job_IssueKey job) (StoryPointsField cfg) w) = Inl err \<longrightarrow>
       sp = 1)"
proof -
  obtain n w2 where n: "Now env w1 = (n, w2)" by fastforce
  have t: "local_time env n = t" "w_trace w2 = w_trace w1" using NowD [OF n] by (simp_all add: t_def)
  let ?fs = "transition_fields cfg sp t d"
  note v = TransitionIssueWithFields_valid(1) [OF assms(4), of "TransitionID cfg" ?fs w2]
  have "snd (Execute env e job w) = snd (TransitionIssueWithFields env (ex_jira e)
      (job_IssueKey job) (TransitionID cfg) ?fs w2)"
    using assms(1-3,5,8)
    by (simp add: Execute_def executeJiraTransition_def executeInProgressTransition_def Let_def
        n t cfg_def split: prod.split sum.split)
  with v t have sent: "w_trace (snd (Execute env e job w)) = w_trace w1 @
      [HttpSent (transition_request (ex_jira e) (job_IssueKey job)
         (marshal (TransitionRequest (TransitionID cfg) ?fs)))]"
    by simp
  note sp = story_points_double [OF assms(5)]
  have "sp = 1"
    if "fst (GetStoryPoints env (ex_jira e) (job_IssueKey job) (StoryPointsField cfg) w) = Inl err"
    using assms(5) that by (auto simp: story_points_def cfg_def split: prod.splits if_splits)
  with sent in_progress_body [OF assms(9) sp, of t d] ParseFloat_format_float [OF sp] show ?thesis
    by metis
qed

theorem in_progress_request_witness:
  "\<exists>b ms. w_trace (snd (Execute sample_env
        (sample_executor\<lparr>ex_inProgress := (ex_inProgress sample_executor)
           \<lparr>DueDateStrategy := ''sprint_end''\<rparr>\<rparr>)
        (sample_job\<lparr>TargetState := StateInProgress\<rparr>) empty_world)) =
     [HttpSent (transition_request (ex_jira sample_executor) ''RIS-1'' b)] \<and>
     json_parse b = Some (JObj [(''transition'', JObj [(''id'', JStr ''21'')]), (''fields'', JObj ms)]) \<and>
     map_of ms ''due'' = Some (JStr (Format_date (NextWeekday (local_time sample_env 0) Friday)))"
proof -
  let ?e = "sample_executor\<lparr>ex_inProgress := (ex_inProgress sample_executor)
     \<lparr>DueDateStrategy := ''sprint_end''\<rparr>\<rparr>"
  let ?j = "sample_job\<lparr>TargetState := StateInProgress\<rparr>"
  let ?t = "local_time sample_env 0"
  have "ParseWeekday ''friday'' = Inr Friday" by code_simp
  then have due: "CalculateDueDate ''sprint_end'' ''friday'' 1 ?t = Inr (NextWeekday ?t Friday)"
    by (simp add: CalculateDueDate_def StrategySprintEnd_def)
  have sp: "story_points sample_env ?e ?j empty_world = (1, empty_world)"
    by (simp add: story_points_def StrategyStoryPoints_def)
  have u: "list_all utf8_ok [''21'', ''sp'', ''start'', ''due'']" by code_simp
  show ?thesis
    using in_progress_request [OF _ _ _ _ sp, of "NextWeekday ?t Friday"] due u
    by (auto simp: sample_job_def sample_executor_def NewExecutor_def)
qed

end
