(* ===== verification/Processor.thy ===== *)
theory Processor
  imports Executor Store "HOL-Library.Word"
begin

text \<open>
  \<open>internal/worker/processor.go\<close>: new jobs, the retry delay, and what the worker does with
  one claimed job: execute it, report it to the job handlers, settle it in the tables and
  write the audit entries, whose details are encoded as JSON. Errors of the marks and of the audit are only logged.
\<close>

section \<open>Retry delay\<close>

definition baseBackoff :: duration where "baseBackoff = 30 * nanos_per_second"
definition maxBackoff :: duration where "maxBackoff = 30 * nanos_per_minute"

text \<open>\<open>time.Duration(factor) * baseBackoff\<close>: a product of 64-bit words.\<close>

definition scaled_backoff :: "int \<Rightarrow> duration" where
  "scaled_backoff attempts =
     sint (word_of_int (int_of_float (pow2 attempts)) * word_of_int baseBackoff :: 64 word)"

definition nextBackoff :: "int \<Rightarrow> duration" where
  "nextBackoff attempts =
     (if attempts > 20 then maxBackoff
      else let d = scaled_backoff attempts in if d > maxBackoff then maxBackoff else d)"

definition BackoffForAttempt :: "int \<Rightarrow> duration" where
  "BackoffForAttempt attempt = nextBackoff attempt"

section \<open>New jobs\<close>

definition NewJob ::
    "env \<Rightarrow> go_string \<Rightarrow> go_string \<Rightarrow> WorkflowState \<Rightarrow> int \<Rightarrow> world \<Rightarrow> Job \<times> world" where
  "NewJob env eventID issueKey targetState maxAttempts w =
     (let (i, w1) = NewString env w;
          (next, w2) = Now env w1;
          (created, w3) = Now env w2
      in (\<lparr>job_ID = i, job_EventID = eventID, job_Type = JobJiraTransition,
           job_Status = JobPending, job_IssueKey = issueKey, TargetState = targetState,
           job_Payload = ''{}'', Attempts = 0, MaxAttempts = maxAttempts, LastError = '''',
           NextRunAt = next, job_CreatedAt = created, CompletedAt = None\<rparr>, w3))"

section \<open>Processing a job\<close>

definition job_writeAudit :: "env \<Rightarrow> Job \<Rightarrow> go_string \<Rightarrow> go_map \<Rightarrow> world \<Rightarrow> world" where
  "job_writeAudit env job action detail w =
     (let (i, w1) = NewString env w;
          (now, w2) = Now env w1
      in snd (audit_Insert env
           \<lparr>aud_ID = i, aud_EventID = job_EventID job, aud_JobID = job_ID job, Action = action,
            aud_IssueKey = job_IssueKey job, Detail = marshal_map detail, aud_CreatedAt = now\<rparr> w2))"

definition call_job_handlers :: "Job \<Rightarrow> go_error option \<Rightarrow> world \<Rightarrow> world" where
  "call_job_handlers job err w =
     fold (\<lambda>jh. emit (JobHandlerCalled jh job err)) (JobHandlers (w_registry w)) w"

definition settle_ok :: "env \<Rightarrow> Job \<Rightarrow> world \<Rightarrow> world" where
  "settle_ok env job w =
     job_writeAudit env job ''transition_success''
       [(''target_state'', JStr (WorkflowState_str (TargetState job)))]
       (snd (MarkCompleted env (job_ID job) w))"

definition schedule_retry :: "env \<Rightarrow> Job \<Rightarrow> go_error \<Rightarrow> world \<Rightarrow> world" where
  "schedule_retry env job err w =
     (if Attempts job + 1 \<ge> MaxAttempts job then
        job_writeAudit env job ''job_dead'' [(''reason'', JStr ''exhausted retries'')]
          (snd (MarkDead env (job_ID job) (err_text err) w))
      else
        let next = nextBackoff (Attempts job);
            (now, w1) = Now env w
        in snd (MarkFailed env (job_ID job) (err_text err) (now + next) w1))"

definition settle_error :: "env \<Rightarrow> Job \<Rightarrow> go_error \<Rightarrow> world \<Rightarrow> world" where
  "settle_error env job err w =
     (let w1 = job_writeAudit env job ''transition_failed''
            [(''error'', JStr (err_text err)), (''attempt'', JInt (Attempts job + 1))] w
      in case as_jira err of
           Some (StatusCode, body) \<Rightarrow>
             if IsNonRetryable StatusCode then
               job_writeAudit env job ''job_dead''
                 [(''reason'', JStr ''non-retryable jira error''),
                  (''status_code'', JInt StatusCode)]
                 (snd (MarkDead env (job_ID job) (err_text err) w1))
             else schedule_retry env job err w1
         | None \<Rightarrow> schedule_retry env job err w1)"

definition settle :: "env \<Rightarrow> Job \<Rightarrow> go_error option \<Rightarrow> world \<Rightarrow> world" where
  "settle env job err w =
     (case err of None \<Rightarrow> settle_ok env job w | Some e \<Rightarrow> settle_error env job e w)"

definition process :: "env \<Rightarrow> Executor \<Rightarrow> Job \<Rightarrow> world \<Rightarrow> world" where
  "process env e job w =
     (let (err, w1) = Execute env e job w
      in settle env job err (call_job_handlers job err w1))"

section \<open>The delay is the capped power\<close>

lemma int64_of_small: "0 \<le> n \<Longrightarrow> n \<le> 1048576 \<Longrightarrow> int_of_float (of_int n) = n"
  by (simp add: int_of_float_def int64_ok_def int64_min_def int64_max_def Let_def)

lemma power_2_nat_bounds:
  assumes "0 \<le> n" "n \<le> 20"
  shows "(2 :: int) ^ nat n \<le> 1048576"
proof -
  have "(2 :: int) ^ nat n \<le> 2 ^ 20"
    using assms by (intro power_increasing) auto
  then show ?thesis by simp
qed

lemma scaled_backoff_eq:
  assumes "0 \<le> n" "n \<le> 20"
  shows "scaled_backoff n = 2 ^ nat n * baseBackoff"
proof -
  define k :: int where "k = 2 ^ nat n"
  have k: "0 \<le> k" "k \<le> 1048576" using power_2_nat_bounds [OF assms] by (simp_all add: k_def)
  have "pow2 n = of_int k" using assms by (simp add: pow2_def k_def)
  then have "int_of_float (pow2 n) = k" using int64_of_small [OF k] by simp
  then have "scaled_backoff n = sint (word_of_int (k * baseBackoff) :: 64 word)"
    by (simp add: scaled_backoff_def)
  also have "\<dots> = k * baseBackoff"
    unfolding sint_sbintrunc'
    using k by (intro signed_take_bit_int_eq_self) (simp_all add: baseBackoff_def duration_defs)
  finally show ?thesis by (simp add: k_def)
qed

lemma scaled_backoff_neg:
  assumes "n < 0"
  shows "scaled_backoff n = 0"
proof -
  have "0 < pow2 n" "pow2 n < 1"
    using assms by (auto simp: pow2_def)
  then have "\<lfloor>pow2 n\<rfloor> = 0" by (simp add: floor_eq_iff less_imp_le)
  moreover have "0 \<le> pow2 n" by (simp add: less_imp_le)
  ultimately have "int_of_float (pow2 n) = 0"
    by (simp add: int_of_float_def int64_ok_def int64_min_def int64_max_def)
  then show ?thesis by (simp add: scaled_backoff_def)
qed

lemma nextBackoff_eq:
  "nextBackoff n = (if n < 0 then 0 else min (2 ^ nat n * baseBackoff) maxBackoff)"
proof (cases "n \<le> 20")
  case True
  then show ?thesis
    by (simp add: nextBackoff_def Let_def scaled_backoff_eq scaled_backoff_neg
        maxBackoff_def nanos_per_minute_def)
next
  case False
  have "(2 :: int) ^ 20 \<le> 2 ^ nat n" using False by (intro power_increasing) auto
  then have "maxBackoff \<le> 2 ^ nat n * baseBackoff"
    by (simp add: maxBackoff_def baseBackoff_def duration_defs)
  with False show ?thesis by (simp add: nextBackoff_def)
qed

section \<open>What settling does to the tables\<close>

text \<open>The decision about a job, apart from the calls that record it.\<close>

datatype outcome = Finished | Dead go_string | Retry go_string duration

definition permanent :: "go_error \<Rightarrow> bool" where
  "permanent e = (case as_jira e of None \<Rightarrow> False | Some (c, b) \<Rightarrow> IsNonRetryable c)"

definition decide :: "Job \<Rightarrow> go_error option \<Rightarrow> outcome" where
  "decide job err =
     (case err of
        None \<Rightarrow> Finished
      | Some e \<Rightarrow>
          if permanent e \<or> MaxAttempts job \<le> Attempts job + 1 then Dead (err_text e)
          else Retry (err_text e) (nextBackoff (Attempts job)))"

primrec outcome_row :: "outcome \<Rightarrow> instant \<Rightarrow> JobRow \<Rightarrow> JobRow" where
  "outcome_row Finished now = complete_row now"
| "outcome_row (Dead m) now = dead_row m"
| "outcome_row (Retry m d) now = fail_row m (now + d)"

lemma keeps_outcome_row [simp]: "keeps_row (outcome_row oc now)"
  by (cases oc) simp_all

definition no_faults :: "env \<Rightarrow> bool" where
  "no_faults env = (\<forall>n. fault_at env n = NoFault)"

text \<open>A result whose error, if there is one, can be stored as the text of the row.\<close>

definition recordable :: "go_error option \<Rightarrow> bool" where
  "recordable err = pred_option (\<lambda>e. text_ok (err_text e)) err"

lemma recordable_simps [simp]: "recordable None" "recordable (Some e) = text_ok (err_text e)"
  by (simp_all add: recordable_def)

lemma db_exec_no_faults:
  "no_faults env \<Longrightarrow> stmt (clock_at env (n_clock w)) (w_db w) = Inr (d, x) \<Longrightarrow>
    w_db (snd (db_exec env stmt w)) = d"
  by (simp add: db_exec_def no_faults_def Now_def Let_def)

lemma job_writeAudit_frame [simp]:
  "jobs (w_db (job_writeAudit env job a dt w)) = jobs (w_db w)"
  "events (w_db (job_writeAudit env job a dt w)) = events (w_db w)"
  "w_trace (job_writeAudit env job a dt w) = w_trace w"
  "same_setup w (job_writeAudit env job a dt w)"
  by (simp_all add: job_writeAudit_def split_beta)
    (meson NewString_simps(4) Now_simps(4) repo_setup(7) same_setup_trans)

lemma job_writeAudit_inv:
  "db_inv (w_db w) \<Longrightarrow> db_inv (w_db (job_writeAudit env job a dt w))"
  by (simp add: job_writeAudit_def split_beta repo_db_inv(8))

lemma call_job_handlers_frame [simp]:
  "w_db (call_job_handlers job err w) = w_db w" "same_setup w (call_job_handlers job err w)"
  "n_uuid (call_job_handlers job err w) = n_uuid w"
proof -
  have "w_db (fold (\<lambda>jh. emit (JobHandlerCalled jh job err)) hs w) = w_db w \<and>
    same_setup w (fold (\<lambda>jh. emit (JobHandlerCalled jh job err)) hs w) \<and>
    n_uuid (fold (\<lambda>jh. emit (JobHandlerCalled jh job err)) hs w) = n_uuid w" for hs
    by (induction hs arbitrary: w) (auto simp: same_setup_def emit_def)
  then show "w_db (call_job_handlers job err w) = w_db w" "same_setup w (call_job_handlers job err w)"
    "n_uuid (call_job_handlers job err w) = n_uuid w"
    by (simp_all add: call_job_handlers_def)
qed

lemma call_job_handlers_trace:
  "w_trace (call_job_handlers job err w) =
    w_trace w @ map (\<lambda>jh. JobHandlerCalled jh job err) (jobHandlers (w_registry w))"
proof -
  have "w_trace (fold (\<lambda>jh. emit (JobHandlerCalled jh job err)) hs w) =
      w_trace w @ map (\<lambda>jh. JobHandlerCalled jh job err) hs" for hs
    by (induction hs arbitrary: w) simp_all
  then show ?thesis by (simp add: call_job_handlers_def JobHandlers_def)
qed

text \<open>
  One mark is sent for the job. Its statement is that of the decision; it may be lost, so
  the rows are the old ones or the settled ones.
\<close>

definition settled :: "Job \<Rightarrow> go_error option \<Rightarrow> instant \<Rightarrow> db \<Rightarrow> JobRow list" where
  "settled job err now d =
     jobs (update_jobs (\<lambda>r. job_ID r = job_ID job) (outcome_row (decide job err) now) d)"

lemma mark_jobs:
  "jobs (w_db (snd (MarkCompleted env i w))) = jobs (w_db w) \<or>
    (\<exists>now. jobs (w_db (snd (MarkCompleted env i w))) =
      jobs (update_jobs (\<lambda>r. job_ID r = i) (complete_row now) (w_db w)))"
  "jobs (w_db (snd (MarkFailed env i m t w))) = jobs (w_db w) \<or>
    jobs (w_db (snd (MarkFailed env i m t w))) =
      jobs (update_jobs (\<lambda>r. job_ID r = i) (fail_row m t) (w_db w))"
  "jobs (w_db (snd (MarkDead env i m w))) = jobs (w_db w) \<or>
    jobs (w_db (snd (MarkDead env i m w))) =
      jobs (update_jobs (\<lambda>r. job_ID r = i) (dead_row m) (w_db w))"
  using mark_db(1) [of env i w] mark_db(2) [of env i m t w] mark_db(3) [of env i m w]
  by (auto simp: sql_update_defs)

lemma mark_no_faults:
  assumes "no_faults env"
  shows "w_db (snd (MarkCompleted env i w)) = sql_mark_completed i (clock_at env (n_clock w)) (w_db w)"
    "text_ok m \<Longrightarrow> w_db (snd (MarkFailed env i m t w)) = sql_mark_failed i m t (w_db w)"
    "text_ok m \<Longrightarrow> w_db (snd (MarkDead env i m w)) = sql_mark_dead i m (w_db w)"
  by (simp_all add: MarkCompleted_def MarkFailed_def MarkDead_def with_text_def
      db_exec_no_faults [OF assms])

lemma mark_refused:
  assumes "\<not> text_ok m"
  shows "w_db (snd (MarkFailed env i m t w)) = w_db w" "w_db (snd (MarkDead env i m w)) = w_db w"
  using assms
  by (auto simp: MarkFailed_def MarkDead_def with_text_def db_exec_def Now_def Let_def
      split: fault.split)

text \<open>The details of the audit entries about an error.\<close>

definition failed_detail :: "Job \<Rightarrow> go_error \<Rightarrow> go_map" where
  "failed_detail job e = [(''error'', JStr (err_text e)), (''attempt'', JInt (Attempts job + 1))]"

definition dead_detail :: "go_error \<Rightarrow> go_map" where
  "dead_detail e =
     (case as_jira e of
        Some (c, b) \<Rightarrow>
          if IsNonRetryable c
          then [(''reason'', JStr ''non-retryable jira error''), (''status_code'', JInt c)]
          else [(''reason'', JStr ''exhausted retries'')]
      | None \<Rightarrow> [(''reason'', JStr ''exhausted retries'')])"

text \<open>Settling an error, by the decision.\<close>

lemma settle_error_cases:
  obtains "decide job (Some e) = Dead (err_text e)"
      "settle_error env job e w =
        job_writeAudit env job ''job_dead'' (dead_detail e)
          (snd (MarkDead env (job_ID job) (err_text e)
            (job_writeAudit env job ''transition_failed'' (failed_detail job e) w)))"
  | "decide job (Some e) = Retry (err_text e) (nextBackoff (Attempts job))"
      "settle_error env job e w =
        (let (now, w1) = Now env (job_writeAudit env job ''transition_failed'' (failed_detail job e) w)
         in snd (MarkFailed env (job_ID job) (err_text e) (now + nextBackoff (Attempts job)) w1))"
  by (cases "permanent e"; cases "MaxAttempts job \<le> Attempts job + 1")
    (auto simp: settle_error_def schedule_retry_def decide_def permanent_def Let_def
      failed_detail_def dead_detail_def split: option.splits prod.splits if_splits)

lemma settle_jobs:
  "jobs (w_db (settle env job err w)) = jobs (w_db w) \<or>
    (\<exists>now. jobs (w_db (settle env job err w)) = settled job err now (w_db w))"
proof (cases err)
  case None
  then show ?thesis using mark_jobs(1) [of env "job_ID job" w]
    by (auto simp: settle_def settle_ok_def settled_def decide_def)
next
  case (Some e)
  show ?thesis
  proof (cases rule: settle_error_cases [of job e env w])
    case 1
    then show ?thesis
      using mark_jobs(3) [of env "job_ID job" "err_text e"
          "job_writeAudit env job ''transition_failed'' (failed_detail job e) w"] Some
      by (simp add: settle_def settled_def jobs_update_jobs)
  next
    case 2
    let ?w = "job_writeAudit env job ''transition_failed'' (failed_detail job e) w"
    show ?thesis
      using mark_jobs(2) [of env "job_ID job" "err_text e"
          "clock_at env (n_clock ?w) + nextBackoff (Attempts job)" "snd (Now env ?w)"] Some 2
      by (auto simp: settle_def settled_def jobs_update_jobs split_beta)
  qed
qed

lemma settle_jobs_no_faults:
  assumes "no_faults env" "recordable err"
  shows "\<exists>k. jobs (w_db (settle env job err w)) = settled job err (clock_at env k) (w_db w)"
proof (cases err)
  case None
  then show ?thesis
    by (auto simp: settle_def settle_ok_def settled_def decide_def mark_no_faults [OF assms(1)]
        sql_mark_completed_def)
next
  case (Some e)
  show ?thesis
  proof (cases rule: settle_error_cases [of job e env w])
    case 1
    with Some assms(2) show ?thesis
      by (simp add: settle_def settled_def mark_no_faults [OF assms(1)] sql_mark_dead_def
          jobs_update_jobs)
  next
    case 2
    with Some assms(2) show ?thesis
      by (auto simp: settle_def settled_def mark_no_faults [OF assms(1)] sql_mark_failed_def
          jobs_update_jobs split_beta)
  qed
qed

lemma settle_unrecordable:
  assumes "\<not> recordable err"
  shows "jobs (w_db (settle env job err w)) = jobs (w_db w)"
proof -
  obtain e where e: "err = Some e" "\<not> text_ok (err_text e)"
    using assms by (cases err) simp_all
  show ?thesis
    by (cases rule: settle_error_cases [of job e env w])
      (simp_all add: settle_def e mark_refused split_beta)
qed

lemma mark_frame [simp]:
  "events (w_db (snd (MarkCompleted env i w))) = events (w_db w)"
  "events (w_db (snd (MarkFailed env i m t w))) = events (w_db w)"
  "events (w_db (snd (MarkDead env i m w))) = events (w_db w)"
  "audit_logs (w_db (snd (MarkCompleted env i w))) = audit_logs (w_db w)"
  "audit_logs (w_db (snd (MarkFailed env i m t w))) = audit_logs (w_db w)"
  "audit_logs (w_db (snd (MarkDead env i m w))) = audit_logs (w_db w)"
  using mark_db(1) [of env i w] mark_db(2) [of env i m t w] mark_db(3) [of env i m w]
  by (auto simp: sql_update_defs)

lemma settle_frame:
  "events (w_db (settle env job err w)) = events (w_db w)"
  "w_trace (settle env job err w) = w_trace w"
proof -
  have "events (w_db (settle env job err w)) = events (w_db w) \<and>
    w_trace (settle env job err w) = w_trace w"
  proof (cases err)
    case (Some e)
    then show ?thesis
      by (cases rule: settle_error_cases [of job e env w]) (simp_all add: settle_def split_beta)
  qed (simp add: settle_def settle_ok_def)
  then show "events (w_db (settle env job err w)) = events (w_db w)"
    "w_trace (settle env job err w) = w_trace w" by simp_all
qed

lemma settle_inv: "db_inv (w_db w) \<Longrightarrow> db_inv (w_db (settle env job err w))"
proof (cases err)
  case None
  assume "db_inv (w_db w)"
  with None show ?thesis
    by (simp add: settle_def settle_ok_def job_writeAudit_inv repo_db_inv)
next
  case (Some e)
  assume inv: "db_inv (w_db w)"
  show ?thesis
    by (cases rule: settle_error_cases [of job e env w])
      (simp_all add: settle_def Some job_writeAudit_inv repo_db_inv inv split_beta)
qed

section \<open>Processing as a whole\<close>

lemma process_unfold:
  obtains err w1 where "Execute env e job w = (err, w1)" "sends_only w w1"
    "process env e job w = settle env job err (call_job_handlers job err w1)"
  by (cases "Execute env e job w") (auto simp: process_def dest: Execute_sends_only)

lemma process_inv:
  assumes "db_inv (w_db w)"
  shows "db_inv (w_db (process env e job w))"
proof (cases rule: process_unfold [of env e job w])
  case (1 err w1)
  then show ?thesis using assms by (simp add: settle_inv sends_only_def)
qed

text \<open>The audit entries a job leaves: their actions, and what their details decode to.\<close>

definition audit_documents :: "Job \<Rightarrow> go_error option \<Rightarrow> (go_string \<times> json) list" where
  "audit_documents job err =
     (case err of
        None \<Rightarrow> [(''transition_success'',
          JObj [(''target_state'', JStr (WorkflowState_str (TargetState job)))])]
      | Some e \<Rightarrow>
          (''transition_failed'',
            JObj [(''attempt'', JInt (Attempts job + 1)), (''error'', JStr (err_text e))]) #
          (if permanent e
           then [(''job_dead'', JObj [(''reason'', JStr ''non-retryable jira error''),
             (''status_code'', JInt (fst (the (as_jira e))))])]
           else if MaxAttempts job \<le> Attempts job + 1
           then [(''job_dead'', JObj [(''reason'', JStr ''exhausted retries'')])]
           else []))"

lemma detail_names:
  "text_ok ''target_state''" "text_ok ''attempt''" "text_ok ''error''" "text_ok ''reason''"
  "text_ok ''status_code''" "text_ok ''non-retryable jira error''" "text_ok ''exhausted retries''"
  "\<not> (''error'' :: go_string) \<le> ''attempt''" "(''reason'' :: go_string) \<le> ''status_code''"
  by code_simp+

lemma success_detail:
  assumes "text_ok (WorkflowState_str (TargetState job))"
  shows "jsonb_ok (marshal_map [(''target_state'', JStr (WorkflowState_str (TargetState job)))])"
    "json_parse (marshal_map [(''target_state'', JStr (WorkflowState_str (TargetState job)))]) =
      Some (snd (hd (audit_documents job None)))"
  using flat_document [of "[(''target_state'', JStr (WorkflowState_str (TargetState job)))]"] assms
  by (simp_all add: detail_names audit_documents_def)

lemma error_details:
  assumes "text_ok (err_text e)"
  shows "jsonb_ok (marshal_map (failed_detail job e))" "jsonb_ok (marshal_map (dead_detail e))"
    "decide job (Some e) = Retry m d \<Longrightarrow>
      [(''transition_failed'', json_parse (marshal_map (failed_detail job e)))] =
        map (apsnd Some) (audit_documents job (Some e))"
    "decide job (Some e) = Dead m \<Longrightarrow>
      [(''transition_failed'', json_parse (marshal_map (failed_detail job e))),
       (''job_dead'', json_parse (marshal_map (dead_detail e)))] =
        map (apsnd Some) (audit_documents job (Some e))"
proof -
  have "flat (failed_detail job e)" "flat (dead_detail e)"
    using assms by (auto simp: failed_detail_def dead_detail_def detail_names split: option.split)
  note d = flat_document [OF this(1)] flat_document [OF this(2)]
  have "sort_key fst (failed_detail job e) =
      [(''attempt'', JInt (Attempts job + 1)), (''error'', JStr (err_text e))]"
    by (simp add: failed_detail_def detail_names)
  moreover have "sort_key fst (dead_detail e) = dead_detail e"
    by (auto simp: dead_detail_def detail_names split: option.split)
  ultimately show "jsonb_ok (marshal_map (failed_detail job e))" "jsonb_ok (marshal_map (dead_detail e))"
    "decide job (Some e) = Retry m d \<Longrightarrow>
      [(''transition_failed'', json_parse (marshal_map (failed_detail job e)))] =
        map (apsnd Some) (audit_documents job (Some e))"
    "decide job (Some e) = Dead m \<Longrightarrow>
      [(''transition_failed'', json_parse (marshal_map (failed_detail job e))),
       (''job_dead'', json_parse (marshal_map (dead_detail e)))] =
        map (apsnd Some) (audit_documents job (Some e))"
    using d by (auto simp: decide_def audit_documents_def dead_detail_def permanent_def
        split: option.splits if_splits)
qed

lemma audit_Insert_ok:
  assumes "no_faults env" "aud_ID a \<notin> ar_ID ` set (audit_logs (w_db w))"
    and "has_event_id (w_db w) (aud_EventID a)" "has_job_id (w_db w) (aud_JobID a)"
    and "aud_EventID a \<noteq> ''''" "aud_JobID a \<noteq> ''''"
    and "text_ok (Action a)" "text_ok (aud_IssueKey a)" "jsonb_ok (Detail a)"
  shows "audit_logs (w_db (snd (audit_Insert env a w))) = audit_logs (w_db w) @
     [\<lparr>ar_ID = aud_ID a, ar_EventID = Some (aud_EventID a), ar_JobID = Some (aud_JobID a),
       ar_Action = Action a, ar_IssueKey = aud_IssueKey a, ar_Detail = Detail a,
       ar_CreatedAt = timestamptz (aud_CreatedAt a)\<rparr>]"
proof -
  obtain d where d: "sql_insert_audit a (w_db w) = Inr d"
    "audit_logs d = audit_logs (w_db w) @
     [\<lparr>ar_ID = aud_ID a, ar_EventID = Some (aud_EventID a), ar_JobID = Some (aud_JobID a),
       ar_Action = Action a, ar_IssueKey = aud_IssueKey a, ar_Detail = Detail a,
       ar_CreatedAt = timestamptz (aud_CreatedAt a)\<rparr>]"
    using assms by (simp add: sql_insert_audit_def nullableString_def Let_def)
  then have "w_db (snd (audit_Insert env a w)) = d"
    by (simp add: audit_Insert_def db_exec_no_faults [OF assms(1), of _ _ d "()"])
  with d(2) show ?thesis by simp
qed

definition audit_row :: "env \<Rightarrow> Job \<Rightarrow> go_string \<Rightarrow> go_map \<Rightarrow> world \<Rightarrow> AuditRow" where
  "audit_row env job action dt w =
     \<lparr>ar_ID = uuid_at env (n_uuid w), ar_EventID = Some (job_EventID job),
      ar_JobID = Some (job_ID job), ar_Action = action, ar_IssueKey = job_IssueKey job,
      ar_Detail = marshal_map dt, ar_CreatedAt = timestamptz (clock_at env (n_clock w))\<rparr>"

lemma n_clock_NewString [simp]: "n_clock (snd (NewString env w)) = n_clock w"
  by (simp add: NewString_def)

lemma n_uuid_NewString [simp]: "n_uuid (snd (NewString env w)) = Suc (n_uuid w)"
  by (simp add: NewString_def)

lemma n_uuid_job_writeAudit [simp]: "n_uuid (job_writeAudit env job a dt w) = Suc (n_uuid w)"
  by (simp add: job_writeAudit_def split_beta)

lemma job_writeAudit_ok:
  assumes "no_faults env" "uuid_at env (n_uuid w) \<notin> ar_ID ` set (audit_logs (w_db w))"
    and "has_event_id (w_db w) (job_EventID job)" "has_job_id (w_db w) (job_ID job)"
    and "job_EventID job \<noteq> ''''" "job_ID job \<noteq> ''''"
    and "text_ok a" "text_ok (job_IssueKey job)" "jsonb_ok (marshal_map dt)"
  shows "audit_logs (w_db (job_writeAudit env job a dt w)) =
    audit_logs (w_db w) @ [audit_row env job a dt w]"
  using assms
  by (simp add: job_writeAudit_def split_beta audit_Insert_ok audit_row_def)

lemma has_job_id_jobs: "map job_ID (jobs d') = map job_ID (jobs d) \<Longrightarrow> has_job_id d' = has_job_id d"
  by (auto simp: has_job_id_def fun_eq_iff simp flip: set_map)

lemma has_event_id_events: "events d' = events d \<Longrightarrow> has_event_id d' = has_event_id d"
  by (simp add: has_event_id_def fun_eq_iff)

lemma MarkDead_ids [simp]:
  "map job_ID (jobs (w_db (snd (MarkDead env i m w)))) = map job_ID (jobs (w_db w))"
  "map job_ID (jobs (w_db (snd (MarkCompleted env i w)))) = map job_ID (jobs (w_db w))"
  using mark_jobs(3) [of env i m w] mark_jobs(1) [of env i w]
  by (metis job_IDs_update_jobs keeps_rows(1,3))+

lemma settle_audit:
  assumes "no_faults env" "has_event_id (w_db w) (job_EventID job)" "has_job_id (w_db w) (job_ID job)"
    and "job_EventID job \<noteq> ''''" "job_ID job \<noteq> ''''"
    and fresh: "uuid_at env (n_uuid w) \<notin> ar_ID ` set (audit_logs (w_db w))"
      "uuid_at env (Suc (n_uuid w)) \<notin> insert (uuid_at env (n_uuid w)) (ar_ID ` set (audit_logs (w_db w)))"
    and texts: "text_ok (job_IssueKey job)" "text_ok (WorkflowState_str (TargetState job))"
      "recordable err"
  shows "\<exists>as. audit_logs (w_db (settle env job err w)) = audit_logs (w_db w) @ as \<and>
    map (\<lambda>a. (ar_Action a, json_parse (ar_Detail a))) as = map (apsnd Some) (audit_documents job err) \<and>
    (\<forall>a \<in> set as. ar_EventID a = Some (job_EventID job) \<and> ar_JobID a = Some (job_ID job) \<and>
      ar_IssueKey a = job_IssueKey job)"
proof (cases err)
  case None
  let ?w = "snd (MarkCompleted env (job_ID job) w)"
  have "has_event_id (w_db ?w) = has_event_id (w_db w)" "has_job_id (w_db ?w) = has_job_id (w_db w)"
    by (intro has_event_id_events has_job_id_jobs; simp)+
  with None assms success_detail [OF texts(2)] show ?thesis
    by (simp add: settle_def settle_ok_def job_writeAudit_ok audit_row_def audit_documents_def)
next
  case (Some e)
  then have e: "text_ok (err_text e)" using texts(3) by simp
  let ?v = "job_writeAudit env job ''transition_failed'' (failed_detail job e) w"
  have v: "audit_logs (w_db ?v) =
      audit_logs (w_db w) @ [audit_row env job ''transition_failed'' (failed_detail job e) w]"
    using assms error_details(1) [OF e] by (simp add: job_writeAudit_ok)
  show ?thesis
  proof (cases rule: settle_error_cases [of job e env w])
    case 1
    let ?w = "snd (MarkDead env (job_ID job) (err_text e) ?v)"
    have "has_event_id (w_db ?w) = has_event_id (w_db w)" "has_job_id (w_db ?w) = has_job_id (w_db w)"
      by (intro has_event_id_events has_job_id_jobs; simp)+
    then have "audit_logs (w_db (job_writeAudit env job ''job_dead'' (dead_detail e) ?w)) =
        audit_logs (w_db w) @ [audit_row env job ''transition_failed'' (failed_detail job e) w,
          audit_row env job ''job_dead'' (dead_detail e) ?w]"
      using assms error_details(2) [OF e] v by (simp add: job_writeAudit_ok audit_row_def)
    then show ?thesis
      using 1 Some error_details(4) [OF e 1(1)] by (simp add: settle_def audit_row_def)
  next
    case 2
    then show ?thesis
      using Some v error_details(3) [OF e 2(1)] by (simp add: settle_def split_beta audit_row_def)
  qed
qed

section \<open>Working a job off\<close>

text \<open>
  What becomes of a job over a list of execution results, claimed anew for each: once it is
  completed or dead it is not claimed any more.
\<close>

definition terminal :: "JobRow \<Rightarrow> bool" where
  "terminal r = (job_Status r = JobCompleted \<or> job_Status r = JobDead)"

fun work_off :: "env \<Rightarrow> go_string \<Rightarrow> go_error option list \<Rightarrow> world \<Rightarrow> world" where
  "work_off env i [] w = w"
| "work_off env i (err # errs) w =
     (case job_lookup (w_db w) i of
        None \<Rightarrow> w
      | Some r \<Rightarrow>
          if terminal r then w else work_off env i errs (settle env (job_of r) err w))"

lemma settled_lookup:
  assumes "jobs d' = settled job err now d"
  shows "job_lookup d' i = map_option
    (\<lambda>r. if job_ID r = job_ID job then outcome_row (decide job err) now r else r) (job_lookup d i)"
proof -
  have "job_lookup d' i = job_lookup (update_jobs (\<lambda>r. job_ID r = job_ID job)
      (outcome_row (decide job err) now) d) i"
    using assms by (simp add: job_lookup_def settled_def)
  then show ?thesis by (simp add: job_lookup_update)
qed

lemma settle_lookup:
  assumes "no_faults env" "recordable err"
  shows "\<exists>now. job_lookup (w_db (settle env job err w)) i = map_option
    (\<lambda>r. if job_ID r = job_ID job then outcome_row (decide job err) now r else r)
    (job_lookup (w_db w) i)"
  using settle_jobs_no_faults [OF assms, of job w] settled_lookup by blast

lemma outcome_progress:
  "terminal (outcome_row (decide (job_of r) err) now r) \<or>
   Attempts (outcome_row (decide (job_of r) err) now r) = Attempts r + 1 \<and>
   Attempts r + 1 < MaxAttempts r \<and>
   MaxAttempts (outcome_row (decide (job_of r) err) now r) = MaxAttempts r"
  by (auto simp: decide_def terminal_def step_simps split: option.split)

lemma work_off_terminates:
  assumes "no_faults env" "job_lookup (w_db w) i = Some r"
    and "MaxAttempts r - Attempts r \<le> int (length errs)" "errs \<noteq> []" "list_all recordable errs"
  shows "\<exists>r'. job_lookup (w_db (work_off env i errs w)) i = Some r' \<and> terminal r'"
  using assms(2-5)
proof (induction errs arbitrary: w r)
  case (Cons err errs)
  show ?case
  proof (cases "terminal r")
    case False
    note open_r = False
    let ?w = "settle env (job_of r) err w"
    have id: "job_ID r = i" using job_lookup_Some [OF Cons.prems(1)] by simp
    obtain now where now: "job_lookup (w_db ?w) i = Some (outcome_row (decide (job_of r) err) now r)"
      using settle_lookup [OF assms(1), of err "job_of r" w i] Cons.prems(1,4) id by auto
    show ?thesis
    proof (cases "terminal (outcome_row (decide (job_of r) err) now r)")
      case True
      then have "\<exists>r'. job_lookup (w_db (work_off env i errs ?w)) i = Some r' \<and> terminal r'"
        using now by (cases errs) auto
      then show ?thesis using Cons.prems(1) open_r by simp
    next
      case False
      with outcome_progress [of r err now] Cons.prems(2)
      have "errs \<noteq> []" "MaxAttempts (outcome_row (decide (job_of r) err) now r) -
          Attempts (outcome_row (decide (job_of r) err) now r) \<le> int (length errs)"
        by auto
      from Cons.IH [OF now this(2,1)] show ?thesis using Cons.prems(1,4) open_r by simp
    qed
  qed (use Cons.prems(1) in simp)
qed simp

section \<open>Errors that cannot be recorded\<close>

lemma text_ok_show_int: "text_ok (show_int n)"
proof (rule text_ok_ascii)
  have d: "list_all (\<lambda>c. 0 < char_code c \<and> char_code c < 128) (show_nat k)" for k
    using show_nat_digits [of k] by (auto simp: list_all_iff is_digit_def)
  show "list_all (\<lambda>c. 0 < char_code c \<and> char_code c < 128) (show_int n)"
    using d by (simp add: show_int_def)
qed

text \<open>The text of the error of a refused transition: valid up to the cut body.\<close>

lemma refused_transition_text:
  assumes "job_Type job = JobJiraTransition" "TargetState job \<noteq> StateInProgress"
    and "transitions (ex_resolver e) (WorkflowState_str (TargetState job)) = Some tid" "tid \<noteq> ''''"
    and "url_valid env (issue_url (ex_jira e) (job_IssueKey job) ''/transitions'')"
    and "\<forall>k q. http_at env k q = Inr \<lparr>hr_StatusCode = c, hr_Body = b\<rparr>" "c \<noteq> 204"
    and "text_ok (job_IssueKey job)" "text_ok (WorkflowState_str (TargetState job))" "text_ok tid"
  shows "\<exists>err. fst (Execute env e job w) = Some err \<and>
    (text_ok (err_text err) \<longleftrightarrow> text_ok (take maxErrorBodyBytes b))"
proof -
  have lits: "text_ok ''transition issue ''" "text_ok '' to ''" "text_ok '' (id ''"
    "text_ok '')''" "text_ok '': ''" "text_ok ''jira returned ''"
    by code_simp+
  note cut = lits [THEN text_ok_append] assms(8-10) [THEN text_ok_append]
    text_ok_show_int [THEN text_ok_append]
  show ?thesis
    using Execute_transition(1) [OF assms(1-4), of env w]
      TransitionIssueWithFields_valid(2) [OF assms(5), of tid "[]" w] assms(6,7)
    by (simp add: TransitionIssue_def transition_answer_def http_error_def cut [simplified])
qed

lemma process_unrecordable:
  assumes "fst (Execute env e job w) = Some err" "\<not> text_ok (err_text err)"
  shows "jobs (w_db (process env e job w)) = jobs (w_db w)"
proof -
  obtain w1 where x: "Execute env e job w = (Some err, w1)" using assms(1) by (metis prod.collapse)
  have "w_db w1 = w_db w" using Execute_sends_only [OF x] by (simp add: sends_only_def)
  then show ?thesis using assms(2) by (simp add: process_def x settle_unrecordable)
qed

section \<open>Properties\<close>

text \<open>
  C25. The delay before the next attempt is 30 seconds doubled once per earlier attempt, at
  most half an hour: the clamp of the exponent and the 64-bit product change nothing for any
  number of attempts, and a negative number gives no delay.
\<close>

theorem backoff_formula:
  "BackoffForAttempt n =
    (if n < 0 then 0 else min (2 ^ nat n * (30 * nanos_per_second)) (30 * nanos_per_minute))"
  by (simp add: BackoffForAttempt_def nextBackoff_eq baseBackoff_def maxBackoff_def)

text \<open>
  Delays never shrink from one attempt to the next, lie between 30 seconds and half an
  hour from the first attempt on, and reach half an hour with the sixth; without the clamp
  the 64-bit product would turn negative at 29 attempts.
\<close>

lemma backoff_bounds:
  "(0 \<le> n \<and> n \<le> m \<longrightarrow> nextBackoff n \<le> nextBackoff m) \<and>
   (0 \<le> n \<longrightarrow> 30 * nanos_per_second \<le> nextBackoff n \<and> nextBackoff n \<le> 30 * nanos_per_minute) \<and>
   (6 \<le> n \<longrightarrow> nextBackoff n = 30 * nanos_per_minute) \<and> scaled_backoff 29 < 0"
proof -
  have pos: "1 \<le> (2 :: int) ^ k" for k by simp
  have mono: "nextBackoff n \<le> nextBackoff m" if "0 \<le> n" "n \<le> m" for n m
  proof -
    have "(2 :: int) ^ nat n \<le> 2 ^ nat m" using that by (intro power_increasing) auto
    then have "2 ^ nat n * baseBackoff \<le> 2 ^ nat m * baseBackoff"
      by (simp add: baseBackoff_def duration_defs)
    then show ?thesis using that by (auto simp: nextBackoff_eq)
  qed
  have "nextBackoff 6 = 30 * nanos_per_minute"
    by (simp add: nextBackoff_eq baseBackoff_def maxBackoff_def duration_defs)
  moreover have "nextBackoff n \<le> 30 * nanos_per_minute" for n
    by (simp add: nextBackoff_eq maxBackoff_def duration_defs)
  moreover have "nextBackoff 0 = 30 * nanos_per_second"
    by (simp add: nextBackoff_eq baseBackoff_def maxBackoff_def duration_defs)
  moreover have "scaled_backoff 29 < 0"
    by (simp add: scaled_backoff_def pow2_def int_of_float_def int64_ok_def int64_min_def
        int64_max_def baseBackoff_def duration_defs)
  ultimately show ?thesis
    using mono [of n m] mono [of 0 n] mono [of 6 n] by (auto intro: antisym)
qed

text \<open>
  C21. Processing a job, whatever fails: no event changes, at most the job's own row does, and
  that row is either as before or settled by the decision about the result (completed; dead
  with the error for a permanent error or the last attempt; failed with the error and the
  delay otherwise). With no database fault and an error text that fits its column it is settled.
\<close>

theorem process_settles_its_row:
  assumes "Execute env e job w = (err, w1)"
  shows "events (w_db (process env e job w)) = events (w_db w) \<and>
    (jobs (w_db (process env e job w)) = jobs (w_db w) \<and> \<not> (no_faults env \<and> recordable err) \<or>
     (\<exists>now. jobs (w_db (process env e job w)) =
        map (\<lambda>r. if job_ID r = job_ID job then outcome_row (decide job err) now r else r)
          (jobs (w_db w))))"
proof -
  let ?v = "call_job_handlers job err w1"
  have p: "process env e job w = settle env job err ?v" by (simp add: process_def assms)
  have "w_db ?v = w_db w" using Execute_sends_only [OF assms] by (simp add: sends_only_def)
  then show ?thesis
    using settle_jobs [of env job err ?v] settle_jobs_no_faults [of env err job ?v]
      settle_frame(1) [of env job err ?v]
    by (auto simp: p settled_def jobs_update_jobs)
qed

theorem process_settles_its_row_witness:
  "\<exists>now. jobs (w_db (process sample_env sample_executor sample_job one_job_world)) =
     map (\<lambda>r. if job_ID r = ''j'' then outcome_row Finished now r else r) (jobs (w_db one_job_world))"
proof -
  have "\<exists>w1. Execute sample_env sample_executor sample_job one_job_world = (None, w1)"
    by (simp add: Execute_def executeJiraTransition_def sample_job_def sample_executor_def
        NewExecutor_def NewResolver_def ResolveTransitionID_def TransitionIssue_def
        TransitionIssueWithFields_def send_def wrap_err_def http_do_def expect_no_content_def)
  then obtain w1 where "Execute sample_env sample_executor sample_job one_job_world = (None, w1)" ..
  from process_settles_its_row [OF this] obtain now where
    "jobs (w_db (process sample_env sample_executor sample_job one_job_world)) =
       map (\<lambda>r. if job_ID r = job_ID sample_job then outcome_row (decide sample_job None) now r
          else r) (jobs (w_db one_job_world))"
    by (auto simp: no_faults_def)
  moreover have "decide sample_job None = Finished" "job_ID sample_job = ''j''"
    by (simp_all add: decide_def sample_job_def)
  ultimately show ?thesis by auto
qed


lemma show_int_404: "show_int 404 = ''404''"
  by code_simp

definition missing_env :: env where
  "missing_env = sample_env\<lparr>http_at := (\<lambda>n q. Inr \<lparr>hr_StatusCode = 404, hr_Body = ''gone''\<rparr>)\<rparr>"


text \<open>
  C24. Retrying ends: without database faults, a job that is worked off with any results whose
  error texts fit their column is completed or dead after at most as many executions as it has
  attempts left (at least one).
\<close>

theorem retries_terminate:
  assumes "no_faults env" "job_lookup (w_db w) i = Some r"
    and "MaxAttempts r - Attempts r \<le> int (length errs)" "errs \<noteq> []" "list_all recordable errs"
  shows "\<exists>r'. job_lookup (w_db (work_off env i errs w)) i = Some r' \<and> terminal r'"
  using assms by (rule work_off_terminates)

theorem retries_terminate_witness:
  "\<exists>r'. job_lookup (w_db (work_off sample_env ''j'' (replicate 5 (Some (Errorf ''down'')))
     one_job_world)) ''j'' = Some r' \<and> terminal r'"
proof -
  have "\<exists>r. job_lookup (w_db one_job_world) ''j'' = Some r \<and> MaxAttempts r - Attempts r \<le> 5"
    by (simp add: one_job_world_def job_lookup_def)
  then obtain r where "job_lookup (w_db one_job_world) ''j'' = Some r"
    "MaxAttempts r - Attempts r \<le> 5" by blast
  moreover have "text_ok ''down''" by code_simp
  ultimately show ?thesis
    by (intro retries_terminate [of sample_env]) (simp_all add: no_faults_def list_all_iff)
qed


definition long_answer :: go_string where
  "long_answer = replicate 4095 CHR ''x'' @ [byte 195, byte 169]"


text \<open>
  C26. The audit trail of a job: without faults, with fresh identifiers and with texts that fit
  their columns, settling appends one success entry, or one failure entry, followed by a job_dead
  entry exactly when the job dies; the JSON details decode to the target state, to the error and
  the attempt, and to the reason of death; each entry names the event, the job and the issue.
\<close>

theorem audit_trail:
  assumes "no_faults env" "has_event_id (w_db w) (job_EventID job)" "has_job_id (w_db w) (job_ID job)"
    and "job_EventID job \<noteq> ''''" "job_ID job \<noteq> ''''"
    and "uuid_at env (n_uuid w) \<notin> ar_ID ` set (audit_logs (w_db w))"
      "uuid_at env (Suc (n_uuid w)) \<notin> insert (uuid_at env (n_uuid w)) (ar_ID ` set (audit_logs (w_db w)))"
    and "text_ok (job_IssueKey job)" "text_ok (WorkflowState_str (TargetState job))" "recordable err"
  shows "\<exists>as. audit_logs (w_db (settle env job err w)) = audit_logs (w_db w) @ as \<and>
    map (\<lambda>a. (ar_Action a, json_parse (ar_Detail a))) as = map (apsnd Some) (audit_documents job err) \<and>
    (\<forall>a \<in> set as. ar_EventID a = Some (job_EventID job) \<and> ar_JobID a = Some (job_ID job) \<and>
      ar_IssueKey a = job_IssueKey job)"
  by (rule settle_audit [OF assms])

theorem audit_trail_witness:
  "\<exists>as. audit_logs (w_db (settle sample_env sample_job None one_job_world)) = as \<and>
     map (\<lambda>a. (ar_Action a, json_parse (ar_Detail a))) as =
       [(''transition_success'', Some (JObj [(''target_state'', JStr ''done'')]))]"
proof -
  have "show_nat (Suc 0) \<noteq> show_nat 0" using show_nat_inj by blast
  moreover have "text_ok ''RIS-1''" by code_simp
  ultimately show ?thesis
    using audit_trail [of sample_env one_job_world sample_job None]
    by (simp add: no_faults_def one_job_world_def sample_job_def has_event_id_def has_job_id_def
        audit_documents_def)
qed

end
