(* ===== verification/Webhook.thy ===== *)
theory Webhook
  imports Webhook_Parser Issue_Key Workflow Config Store Processor "HOL-Library.Sublist"
begin

text \<open>
  \<open>internal/server/webhook_handler.go\<close>: the webhook endpoint from the token check to the
  answer, with the replies of \<open>writeJSON\<close> and \<open>writeError\<close>. A request is the token header
  and what can be read of the body: its bytes, and the error the connection ends with, if
  any. A reply is a status code and the document that is encoded.
\<close>

section \<open>Requests and replies\<close>

record request =
  rq_Token :: go_string
  rq_Body :: go_string
  rq_BodyError :: "go_string option"

datatype document =
    Fields "(go_string \<times> json) list"
  | Unencodable

record reply =
  rp_Status :: int
  rp_Document :: document

definition writeJSON :: "int \<Rightarrow> document \<Rightarrow> reply" where
  "writeJSON status v = \<lparr>rp_Status = status, rp_Document = v\<rparr>"

text \<open>
  The bytes of the body: the encoded map and a newline, or nothing when a value in it has no
  encoding (the status is already written then, and the error is dropped).
\<close>

definition response_body :: "reply \<Rightarrow> go_string" where
  "response_body r =
     (case rp_Document r of Fields ms \<Rightarrow> marshal_map ms @ [CHR 0x0A] | Unencodable \<Rightarrow> [])"

definition writeError :: "int \<Rightarrow> go_string \<Rightarrow> reply" where
  "writeError status msg = writeJSON status (Fields [(''error'', JStr msg)])"

definition maxWebhookBodyBytes :: nat where "maxWebhookBodyBytes = 5 * 1024 * 1024"

text \<open>\<open>io.ReadAll\<close> through \<open>http.MaxBytesReader\<close>.\<close>

definition read_body :: "request \<Rightarrow> go_string result" where
  "read_body rq =
     (if maxWebhookBodyBytes < length (rq_Body rq)
      then Inl (Errorf ''http: request body too large'')
      else case rq_BodyError rq of None \<Rightarrow> Inr (rq_Body rq) | Some m \<Rightarrow> Inl (Errorf m))"

section \<open>The handler\<close>

record webhookHandler =
  wh_gitlabCfg :: GitLabConfig
  wh_workflow :: WorkflowConfig
  wh_maxAttempts :: int

definition ignored :: "go_string \<Rightarrow> reply" where
  "ignored reason =
     writeJSON 200 (Fields [(''status'', JStr ''ignored''), (''reason'', JStr reason)])"

definition accepted :: "NormalizedEvent \<Rightarrow> go_string \<Rightarrow> reply" where
  "accepted event target =
     writeJSON 202 (Fields
       [(''status'', JStr ''accepted''), (''event_id'', JStr (ev_ID event)),
        (''issue_keys'', JArr (map JStr (IssueKeys_of event))), (''target_state'', JStr target)])"

text \<open>The plugin handlers run in registration order; an error is only logged.\<close>

fun call_event_handlers :: "nat \<Rightarrow> EventHandler list \<Rightarrow> NormalizedEvent \<Rightarrow> world \<Rightarrow> world" where
  "call_event_handlers i [] event w = w"
| "call_event_handlers i (ph # phs) event w =
     call_event_handlers (Suc i) phs event (emit (EventHandlerCalled i event (ph event)) w)"

text \<open>One job per issue key; a job that cannot be enqueued is passed over.\<close>

fun enqueue_jobs ::
    "env \<Rightarrow> go_string \<Rightarrow> WorkflowState \<Rightarrow> int \<Rightarrow> go_string list \<Rightarrow> world \<Rightarrow> world" where
  "enqueue_jobs env eventID target maxAttempts [] w = w"
| "enqueue_jobs env eventID target maxAttempts (key # keys) w =
     (let (job, w1) = NewJob env eventID key target maxAttempts w;
          (r, w2) = Enqueue env job w1
      in enqueue_jobs env eventID target maxAttempts keys w2)"

text \<open>Steps 9 to 11: persist the event, call the plugins, enqueue, answer.\<close>

definition persist_and_enqueue ::
    "env \<Rightarrow> webhookHandler \<Rightarrow> NormalizedEvent \<Rightarrow> WorkflowState \<Rightarrow> world \<Rightarrow> reply \<times> world" where
  "persist_and_enqueue env h event0 target w =
     (let (i, w1) = NewString env w;
          (now, w2) = Now env w1;
          event = event0\<lparr>ev_ID := i, ReceivedAt := now\<rparr>
      in case event_Insert env event w2 of
           (Inl e, w3) \<Rightarrow> (writeError 500 ''internal error'', w3)
         | (Inr _, w3) \<Rightarrow>
             let w4 = call_event_handlers 0 (EventHandlers (w_registry w3)) event w3;
                 w5 = enqueue_jobs env (ev_ID event) target (wh_maxAttempts h)
                        (IssueKeys_of event) w4
             in (accepted event (WorkflowState_str target), w5))"

definition handleEmojiAward ::
    "env \<Rightarrow> webhookHandler \<Rightarrow> NormalizedEvent \<Rightarrow> world \<Rightarrow> reply \<times> world" where
  "handleEmojiAward env h event w =
     (if EmojiName event \<noteq> DoneEmoji (wh_workflow h) then (ignored ''wrong_emoji'', w)
      else if length (IssueKeys_of event) = 0 then (ignored ''no_issue_keys'', w)
      else persist_and_enqueue env h event StateDone w)"

text \<open>Step 6: the probe of the push payload, and whether the push is passed over.\<close>

definition push_ignored :: "webhookHandler \<Rightarrow> NormalizedEvent \<Rightarrow> go_string \<Rightarrow> bool" where
  "push_ignored h event before =
     (let isTargetBranch =
        (SourceBranch event = wf_DevelopBranch (wh_workflow h) \<or>
         SourceBranch event = wf_MasterBranch (wh_workflow h))
      in \<not> IsNewBranch before \<and> \<not> isTargetBranch)"

text \<open>Steps 7 and 8, for an event that is new.\<close>

definition route_event ::
    "env \<Rightarrow> webhookHandler \<Rightarrow> NormalizedEvent \<Rightarrow> world \<Rightarrow> reply \<times> world" where
  "route_event env h event0 w =
     (let wf = wh_workflow h;
          (keys, cache) = IssueKeysFromEvent (w_patterns w) (ProjectKey wf)
            (SourceBranch event0) (MRTitle event0) (CommitMessages event0);
          event = event0\<lparr>IssueKeys_of := keys\<rparr>;
          w1 = w\<lparr>w_patterns := cache\<rparr>
      in if ev_Type event = EventEmojiAward then handleEmojiAward env h event w1
         else
           case Classify event
               \<lparr>DevelopBranch = wf_DevelopBranch wf, MasterBranch = wf_MasterBranch wf\<rparr> of
             None \<Rightarrow> (ignored ''no_action'', w1)
           | Some target \<Rightarrow>
               if length (IssueKeys_of event) = 0 then (ignored ''no_action'', w1)
               else persist_and_enqueue env h event target w1)"

definition handleGitLab :: "env \<Rightarrow> webhookHandler \<Rightarrow> request \<Rightarrow> world \<Rightarrow> reply \<times> world" where
  "handleGitLab env h rq w =
     (case ValidateToken (rq_Token rq) (WebhookSecret (wh_gitlabCfg h)) of
        Some e \<Rightarrow> (writeError 401 ''unauthorized'', w)
      | None \<Rightarrow>
     (case read_body rq of
        Inl err \<Rightarrow>
          if err_text err = ''http: request body too large''
          then (writeError 413 ''payload too large'', w)
          else (writeError 400 ''failed to read body'', w)
      | Inr raw \<Rightarrow>
     (case Parse raw (clock_at env (n_clock w)) of
        Inl err \<Rightarrow> (writeError 400 ''failed to parse event'', w)
      | Inr event \<Rightarrow>
          let w1 = snd (Now env w) in
          if EventType_str (ev_Type event) = ''unrecognized''
          then (writeJSON 200 (Fields [(''status'', JStr ''ignored'')]), w1)
          else
     (case ExistsByIdempotencyKey env (IdempotencyKey event) w1 of
        (Inl err, w2) \<Rightarrow> (writeError 500 ''internal error'', w2)
      | (Inr exists, w2) \<Rightarrow>
          if exists
          then (writeJSON 200 (Fields [(''status'', JStr ''already_processed'')]), w2)
          else if ev_Type event = EventPush then
            (case unmarshal (probe_field ''before'') '''' raw of
               Inl err \<Rightarrow> (writeError 400 ''failed to parse push event'', w2)
             | Inr before \<Rightarrow>
                 if push_ignored h event before then (ignored ''not_new_branch'', w2)
                 else route_event env h event w2)
          else route_event env h event w2))))"

section \<open>Admission and commit\<close>

text \<open>
  The handler as two phases: what it decides about a request, which changes no table, and
  what it then writes. The reading side of a delivery ends where the other begins, so two
  deliveries may interleave between the phases.
\<close>

definition admit_event ::
    "webhookHandler \<Rightarrow> NormalizedEvent \<Rightarrow> world \<Rightarrow> (reply + NormalizedEvent \<times> WorkflowState) \<times> world" where
  "admit_event h event0 w =
     (let wf = wh_workflow h;
          (keys, cache) = IssueKeysFromEvent (w_patterns w) (ProjectKey wf)
            (SourceBranch event0) (MRTitle event0) (CommitMessages event0);
          event = event0\<lparr>IssueKeys_of := keys\<rparr>;
          w1 = w\<lparr>w_patterns := cache\<rparr>;
          target = Classify event
            \<lparr>DevelopBranch = wf_DevelopBranch wf, MasterBranch = wf_MasterBranch wf\<rparr>
      in if ev_Type event = EventEmojiAward then
           (if EmojiName event \<noteq> DoneEmoji wf then (Inl (ignored ''wrong_emoji''), w1)
            else if keys = [] then (Inl (ignored ''no_issue_keys''), w1)
            else (Inr (event, StateDone), w1))
         else if target = None \<or> keys = [] then (Inl (ignored ''no_action''), w1)
         else (Inr (event, the target), w1))"

definition admit ::
    "env \<Rightarrow> webhookHandler \<Rightarrow> request \<Rightarrow> world \<Rightarrow> (reply + NormalizedEvent \<times> WorkflowState) \<times> world" where
  "admit env h rq w =
     (if ValidateToken (rq_Token rq) (WebhookSecret (wh_gitlabCfg h)) \<noteq> None
      then (Inl (writeError 401 ''unauthorized''), w)
      else
     (case read_body rq of
        Inl err \<Rightarrow>
          (Inl (if err_text err = ''http: request body too large''
                then writeError 413 ''payload too large''
                else writeError 400 ''failed to read body''), w)
      | Inr raw \<Rightarrow>
     (case Parse raw (clock_at env (n_clock w)) of
        Inl err \<Rightarrow> (Inl (writeError 400 ''failed to parse event''), w)
      | Inr event \<Rightarrow>
          let w1 = snd (Now env w) in
          if ev_Type event = EventUnrecognized
          then (Inl (writeJSON 200 (Fields [(''status'', JStr ''ignored'')])), w1)
          else
     (case ExistsByIdempotencyKey env (IdempotencyKey event) w1 of
        (Inl err, w2) \<Rightarrow> (Inl (writeError 500 ''internal error''), w2)
      | (Inr exists, w2) \<Rightarrow>
          if exists
          then (Inl (writeJSON 200 (Fields [(''status'', JStr ''already_processed'')])), w2)
          else if ev_Type event = EventPush then
            (case unmarshal (probe_field ''before'') '''' raw of
               Inl err \<Rightarrow> (Inl (writeError 400 ''failed to parse push event''), w2)
             | Inr before \<Rightarrow>
                 if push_ignored h event before then (Inl (ignored ''not_new_branch''), w2)
                 else admit_event h event w2)
          else admit_event h event w2))))"

definition commit ::
    "env \<Rightarrow> webhookHandler \<Rightarrow> (reply + NormalizedEvent \<times> WorkflowState) \<times> world \<Rightarrow> reply \<times> world" where
  "commit env h a =
     (case a of
        (Inl r, w) \<Rightarrow> (r, w)
      | (Inr (event, target), w) \<Rightarrow> persist_and_enqueue env h event target w)"

lemma route_event_admit: "route_event env h ev w = commit env h (admit_event h ev w)"
  by (auto simp: route_event_def admit_event_def commit_def handleEmojiAward_def Let_def
      split: prod.split option.split)

lemma Parse_unrecognized:
  "Parse raw now = Inr ev \<Longrightarrow> EventType_str (ev_Type ev) = ''unrecognized'' \<longleftrightarrow> ev_Type ev = EventUnrecognized"
  using Parse_type(1) [of raw now ev] by auto

lemma handleGitLab_admit: "handleGitLab env h rq w = commit env h (admit env h rq w)"
  by (auto simp: handleGitLab_def admit_def commit_def route_event_admit Let_def Parse_unrecognized
      split: option.split sum.split prod.split)

text \<open>What admission leaves alone, and what it has checked when it lets an event through.\<close>

lemma admit_event_frame:
  "admit_event h ev w = (a, w') \<Longrightarrow> w_db w' = w_db w \<and> w_registry w' = w_registry w \<and>
    w_trace w' = w_trace w \<and> n_uuid w' = n_uuid w"
  by (auto simp: admit_event_def Let_def split: prod.splits if_splits)

lemma admit_frame:
  "admit env h rq w = (a, w') \<Longrightarrow> w_db w' = w_db w \<and> w_registry w' = w_registry w \<and>
    w_trace w' = w_trace w \<and> n_uuid w' = n_uuid w"
  by (auto simp: admit_def Let_def same_setup_def Now_def
      dest!: ExistsByIdempotencyKeyD admit_event_frame split: if_splits sum.splits prod.splits)

definition event_texts :: "NormalizedEvent \<Rightarrow> go_string list" where
  "event_texts ev =
     [SourceBranch ev, MRTitle ev] @
     (if CommitMessages ev = [] then [] else [Join (CommitMessages ev) '' ''])"

definition event_target :: "webhookHandler \<Rightarrow> NormalizedEvent \<Rightarrow> WorkflowState option" where
  "event_target h ev =
     (if ev_Type ev = EventEmojiAward
      then (if EmojiName ev = DoneEmoji (wh_workflow h) then Some StateDone else None)
      else Classify ev \<lparr>DevelopBranch = wf_DevelopBranch (wh_workflow h),
        MasterBranch = wf_MasterBranch (wh_workflow h)\<rparr>)"

lemma Classify_IssueKeys [simp]: "Classify (ev\<lparr>IssueKeys_of := ks\<rparr>) cfg = Classify ev cfg"
  by (simp add: Classify_def classifyPush_def classifyMerge_def cong: EventType.case_cong)

lemma admit_event_Inr:
  assumes "cache_ok (w_patterns w)"
  shows "fst (admit_event h ev w) = Inr (ev', t) \<longleftrightarrow>
    event_target h ev = Some t \<and> first_keys (ProjectKey (wh_workflow h)) (event_texts ev) \<noteq> [] \<and>
    ev' = ev\<lparr>IssueKeys_of := first_keys (ProjectKey (wh_workflow h)) (event_texts ev)\<rparr>"
    "cache_ok (w_patterns (snd (admit_event h ev w)))"
proof -
  obtain ks c where k: "IssueKeysFromEvent (w_patterns w) (ProjectKey (wh_workflow h))
      (SourceBranch ev) (MRTitle ev) (CommitMessages ev) = (ks, c)" by fastforce
  have ks: "ks = first_keys (ProjectKey (wh_workflow h)) (event_texts ev)" "cache_ok c"
    using IssueKeysFromEvent_eq [OF assms, of "ProjectKey (wh_workflow h)" "SourceBranch ev"
        "MRTitle ev" "CommitMessages ev"] by (simp_all add: k event_texts_def)
  show "fst (admit_event h ev w) = Inr (ev', t) \<longleftrightarrow>
    event_target h ev = Some t \<and> first_keys (ProjectKey (wh_workflow h)) (event_texts ev) \<noteq> [] \<and>
    ev' = ev\<lparr>IssueKeys_of := first_keys (ProjectKey (wh_workflow h)) (event_texts ev)\<rparr>"
    by (auto simp: admit_event_def k ks(1) event_target_def Let_def)
  show "cache_ok (w_patterns (snd (admit_event h ev w)))"
    using ks(2) by (auto simp: admit_event_def k Let_def)
qed

text \<open>The states the handler moves issues to are written in ASCII.\<close>

lemma event_target_text: "event_target h ev = Some t \<Longrightarrow> text_ok (WorkflowState_str t)"
  by (auto simp: event_target_def Classify_def classifyPush_def classifyMerge_def
      split: if_splits EventType.splits)

text \<open>What it takes for a request to be admitted.\<close>

definition push_ok :: "webhookHandler \<Rightarrow> NormalizedEvent \<Rightarrow> go_string \<Rightarrow> bool" where
  "push_ok h ev raw =
     (ev_Type ev = EventPush \<longrightarrow>
      (\<exists>before. unmarshal (probe_field ''before'') '''' raw = Inr before \<and> 
        (before = '''' \<or> before = zeroSHA \<or>
         SourceBranch ev \<in> {wf_DevelopBranch (wh_workflow h), wf_MasterBranch (wh_workflow h)})))"

lemma admit_Inr:
  assumes "admit env h rq w = (Inr (ev', t), w')" "cache_ok (w_patterns w)"
  obtains raw ev where "rq_Token rq = WebhookSecret (wh_gitlabCfg h)" "read_body rq = Inr raw"
    "Parse raw (clock_at env (n_clock w)) = Inr ev" "ev_Type ev \<noteq> EventUnrecognized"
    "\<not> has_event_key (w_db w) (IdempotencyKey ev)" "push_ok h ev raw"
    "event_target h ev = Some t" "IssueKeys_of ev' \<noteq> []"
    "ev' = ev\<lparr>IssueKeys_of := first_keys (ProjectKey (wh_workflow h)) (event_texts ev)\<rparr>"
    "cache_ok (w_patterns w')"
proof -
  have ce: "event_target h ev = Some t \<and>
      first_keys (ProjectKey (wh_workflow h)) (event_texts ev) \<noteq> [] \<and>
      ev' = ev\<lparr>IssueKeys_of := first_keys (ProjectKey (wh_workflow h)) (event_texts ev)\<rparr> \<and>
      cache_ok (w_patterns w')"
    if "admit_event h ev v = (Inr (ev', t), w')" "same_setup (snd (Now env w)) v" for ev v
  proof -
    have "cache_ok (w_patterns v)" using that(2) assms(2) by (simp add: same_setup_def Now_def)
    from admit_event_Inr(1) [OF this, of h ev ev' t] admit_event_Inr(2) [OF this, of h ev] that(1)
    show ?thesis by simp
  qed
  show thesis
    using assms(1)
    by (auto simp: admit_def Let_def ValidateToken_iff push_ok_def push_ignored_def
        IsNewBranch_def intro!: that
        dest!: ce dest: ExistsByIdempotencyKey_Inr ExistsByIdempotencyKeyD
        split: if_splits sum.splits prod.splits)
qed

section \<open>The jobs of a delivery\<close>

definition new_job :: "go_string \<Rightarrow> WorkflowState \<Rightarrow> int \<Rightarrow> Job \<Rightarrow> bool" where
  "new_job eventID target maxAttempts j =
     (job_EventID j = eventID \<and> job_Type j = JobJiraTransition \<and> job_Status j = JobPending \<and>
      TargetState j = target \<and> Attempts j = 0 \<and> MaxAttempts j = maxAttempts \<and>
      job_Payload j = ''{}'' \<and> LastError j = '''')"

lemma NewJobD:
  assumes "NewJob env eid k t m w = (j, w')"
  shows "new_job eid t m j" "job_IssueKey j = k" "job_ID j = uuid_at env (n_uuid w)"
    "w_db w' = w_db w" "n_uuid w' = Suc (n_uuid w)" "w_trace w' = w_trace w" "same_setup w w'"
  using assms
  by (auto simp: NewJob_def new_job_def Now_def NewString_def same_setup_def Let_def)

lemma enqueue_jobs_setup:
  "same_setup w (enqueue_jobs env eid t m ks w)"
proof (induction ks arbitrary: w)
  case (Cons k ks)
  obtain j w1 where j: "NewJob env eid k t m w = (j, w1)" by fastforce
  have "same_setup w w1" using NewJobD [OF j] by simp
  also have "same_setup w1 (snd (Enqueue env j w1))" by simp
  also note Cons.IH [of "snd (Enqueue env j w1)"]
  finally show ?case by (simp add: j split_beta)
qed simp

text \<open>
  Whatever fails, the enqueue loop only appends jobs of the event, each for one of the
  keys and in their order.
\<close>

lemma enqueue_jobs_db:
  "\<exists>js. w_db (enqueue_jobs env eid t m ks w) =
      w_db w\<lparr>jobs := jobs (w_db w) @ map job_row js\<rparr> \<and>
    subseq (map job_IssueKey js) ks \<and> list_all (new_job eid t m) js \<and>
    (js \<noteq> [] \<longrightarrow> has_event_id (w_db w) eid)"
proof (induction ks arbitrary: w)
  case Nil
  show ?case by (rule exI [where x = "[]"]) simp
next
  case (Cons k ks)
  obtain j w1 where j: "NewJob env eid k t m w = (j, w1)" by fastforce
  note nj = NewJobD [OF j]
  let ?w2 = "snd (Enqueue env j w1)"
  obtain js where js: "w_db (enqueue_jobs env eid t m ks ?w2) =
      w_db ?w2\<lparr>jobs := jobs (w_db ?w2) @ map job_row js\<rparr>"
    "subseq (map job_IssueKey js) ks" "list_all (new_job eid t m) js"
    "js \<noteq> [] \<longrightarrow> has_event_id (w_db ?w2) eid"
    using Cons.IH [of ?w2] by blast
  from Enqueue_db [of env j w1] show ?case
  proof
    assume "w_db ?w2 = w_db w1"
    then have "w_db (enqueue_jobs env eid t m (k # ks) w) =
        w_db w\<lparr>jobs := jobs (w_db w) @ map job_row js\<rparr>"
      using js(1) nj by (simp add: j split_beta)
    moreover have "subseq (map job_IssueKey js) (k # ks)"
      using js(2) by (rule list_emb_Cons)
    ultimately show ?thesis using js nj \<open>w_db ?w2 = w_db w1\<close> by auto
  next
    assume ins: "sql_insert_job j (w_db w1) = Inr (w_db ?w2)"
    note i = insert_job_Inr [OF ins]
    have "w_db (enqueue_jobs env eid t m (k # ks) w) =
        w_db w\<lparr>jobs := jobs (w_db w) @ map job_row (j # js)\<rparr>"
      using js(1) i(3) nj by (simp add: j split_beta)
    moreover have "subseq (map job_IssueKey (j # js)) (k # ks)"
      using js(2) nj(2) by simp
    moreover have "has_event_id (w_db w) eid"
      using i(2) nj by (simp add: new_job_def)
    ultimately show ?thesis using js(3) nj(1) by (intro exI [where x = "j # js"]) simp
  qed
qed

text \<open>Identifiers not drawn yet are those of no row, and never repeat.\<close>

definition fresh_ids :: "env \<Rightarrow> world \<Rightarrow> bool" where
  "fresh_ids env w =
     (inj (uuid_at env) \<and>
      (\<forall>n \<ge> n_uuid w. \<not> has_event_id (w_db w) (uuid_at env n) \<and> \<not> has_job_id (w_db w) (uuid_at env n)))"

lemma Enqueue_ok:
  assumes "no_faults env" "new_job eid t m j" "int4_ok m" "\<not> has_job_id (w_db w) (job_ID j)"
    "has_event_id (w_db w) eid" "text_ok (job_IssueKey j)" "text_ok (WorkflowState_str t)"
  shows "w_db (snd (Enqueue env j w)) = w_db w\<lparr>jobs := jobs (w_db w) @ [job_row j]\<rparr>"
  using assms
  by (simp add: Enqueue_def sql_insert_job_def new_job_def job_texts_ok_def job_statuses_def
      int4_ok_def db_exec_no_faults)

lemma enqueue_jobs_ok:
  assumes "no_faults env" "int4_ok m" "has_event_id (w_db w) eid" "inj (uuid_at env)"
    and "\<forall>n \<ge> n_uuid w. \<not> has_job_id (w_db w) (uuid_at env n)"
    and "text_ok (WorkflowState_str t)" "list_all text_ok ks"
  shows "\<exists>js. w_db (enqueue_jobs env eid t m ks w) =
      w_db w\<lparr>jobs := jobs (w_db w) @ map job_row js\<rparr> \<and>
    map job_IssueKey js = ks \<and> list_all (new_job eid t m) js"
  using assms(3,5,7)
proof (induction ks arbitrary: w)
  case Nil
  show ?case by (rule exI [where x = "[]"]) simp
next
  case (Cons k ks)
  obtain j w1 where j: "NewJob env eid k t m w = (j, w1)" by fastforce
  note nj = NewJobD [OF j]
  let ?w2 = "snd (Enqueue env j w1)"
  have w2: "w_db ?w2 = w_db w\<lparr>jobs := jobs (w_db w) @ [job_row j]\<rparr>"
    using Enqueue_ok [OF assms(1) nj(1) assms(2), of w1] Cons.prems nj assms(6) by simp
  have "uuid_at env n \<noteq> uuid_at env (n_uuid w)" if "Suc (n_uuid w) \<le> n" for n
    using injD [OF assms(4), of n "n_uuid w"] that by auto
  then have fresh: "\<forall>n \<ge> n_uuid ?w2. \<not> has_job_id (w_db ?w2) (uuid_at env n)"
    using Cons.prems(2) w2 nj by (simp add: has_job_id_def)
  have ev: "has_event_id (w_db ?w2) eid"
    using Cons.prems(1) w2 by (simp add: has_event_id_def)
  obtain js where js: "w_db (enqueue_jobs env eid t m ks ?w2) =
      w_db ?w2\<lparr>jobs := jobs (w_db ?w2) @ map job_row js\<rparr>"
    "map job_IssueKey js = ks" "list_all (new_job eid t m) js"
    using Cons.IH [OF ev fresh] Cons.prems(3) by auto
  show ?case
    by (rule exI [where x = "j # js"]) (use js w2 nj in \<open>simp add: j split_beta\<close>)
qed

section \<open>The commit\<close>

lemma call_event_handlers_frame:
  "w_db (call_event_handlers i phs ev w) = w_db w" "same_setup w (call_event_handlers i phs ev w)"
  "n_uuid (call_event_handlers i phs ev w) = n_uuid w"
  "w_trace (call_event_handlers i phs ev w) =
    w_trace w @ map (\<lambda>k. EventHandlerCalled (i + k) ev ((phs ! k) ev)) [0..<length phs]"
proof -
  have *: "w_db (call_event_handlers i phs ev w) = w_db w \<and>
    same_setup w (call_event_handlers i phs ev w) \<and>
    n_uuid (call_event_handlers i phs ev w) = n_uuid w \<and>
    w_trace (call_event_handlers i phs ev w) =
      w_trace w @ map (\<lambda>k. EventHandlerCalled (i + k) ev ((phs ! k) ev)) [0..<length phs]"
  proof (induction i phs ev w rule: call_event_handlers.induct)
    case (2 i ph phs ev w)
    have "map f [0..<Suc (length phs)] = f 0 # map (\<lambda>k. f (Suc k)) [0..<length phs]" for f
      by (simp add: upt_conv_Cons map_Suc_upt [symmetric] comp_def del: upt_Suc)
    note upt = this
    from 2 show ?case by (simp add: same_setup_def emit_def upt del: upt_Suc)
  qed simp
  then show "w_db (call_event_handlers i phs ev w) = w_db w"
    "same_setup w (call_event_handlers i phs ev w)"
    "n_uuid (call_event_handlers i phs ev w) = n_uuid w"
    "w_trace (call_event_handlers i phs ev w) =
      w_trace w @ map (\<lambda>k. EventHandlerCalled (i + k) ev ((phs ! k) ev)) [0..<length phs]"
    by simp_all
qed

text \<open>
  What a commit may do to the tables: insert the event unless its key is taken, and append
  jobs of that event.
\<close>

definition delivery :: "NormalizedEvent \<Rightarrow> WorkflowState \<Rightarrow> int \<Rightarrow> db \<Rightarrow> db \<Rightarrow> bool" where
  "delivery ev t m d d' =
     (audit_logs d' = audit_logs d \<and>
      (events d' = events d \<or>
       events d' = events d @ [event_row ev] \<and> \<not> has_event_key d (IdempotencyKey ev)) \<and>
      (\<exists>js. jobs d' = jobs d @ map job_row js \<and> subseq (map job_IssueKey js) (IssueKeys_of ev) \<and>
         list_all (new_job (ev_ID ev) t m) js \<and> (js \<noteq> [] \<longrightarrow> has_event_id d' (ev_ID ev))))"

lemma persist_and_enqueue_delivery:
  assumes "persist_and_enqueue env h ev t w = (r, w')"
  obtains ev' where "delivery ev' t (wh_maxAttempts h) (w_db w) (w_db w')"
    "ev' = ev\<lparr>ev_ID := uuid_at env (n_uuid w), ReceivedAt := ReceivedAt ev'\<rparr>"
    "rp_Status r = 202 \<longrightarrow> has_event_key (w_db w') (IdempotencyKey ev)"
    "rp_Status r \<in> {202, 500}"
proof -
  obtain i w1 where i: "NewString env w = (i, w1)" by fastforce
  obtain now w2 where n: "Now env w1 = (now, w2)" by fastforce
  define ev' where "ev' = ev\<lparr>ev_ID := i, ReceivedAt := now\<rparr>"
  obtain x w3 where x: "event_Insert env ev' w2 = (x, w3)" by fastforce
  have d2: "w_db w2 = w_db w" "i = uuid_at env (n_uuid w)"
    using NowD [OF n] i by (auto simp: NewString_def)
  have ev': "ev' = ev\<lparr>ev_ID := uuid_at env (n_uuid w), ReceivedAt := ReceivedAt ev'\<rparr>"
    using d2 by (simp add: ev'_def)
  have ins: "audit_logs (w_db w3) = audit_logs (w_db w) \<and> jobs (w_db w3) = jobs (w_db w) \<and>
      (events (w_db w3) = events (w_db w) \<or>
       events (w_db w3) = events (w_db w) @ [event_row ev'] \<and>
       \<not> has_event_key (w_db w) (IdempotencyKey ev'))"
    using event_Insert_db [of env ev' w2] d2 by (auto simp: x elim!: insert_event_cases)
  show thesis
  proof (cases x)
    case (Inl e)
    then have "r = writeError 500 ''internal error''" "w' = w3"
      using assms by (simp_all add: persist_and_enqueue_def i n x Let_def ev'_def [symmetric])
    with ins ev' show thesis
      by (intro that [of ev']) (auto simp: delivery_def writeError_def writeJSON_def)
  next
    case (Inr u)
    let ?w4 = "call_event_handlers 0 (EventHandlers (w_registry w3)) ev' w3"
    have w': "r = accepted ev' (WorkflowState_str t)"
      "w' = enqueue_jobs env (ev_ID ev') t (wh_maxAttempts h) (IssueKeys_of ev') ?w4"
      using assms Inr by (simp_all add: persist_and_enqueue_def i n x Let_def ev'_def [symmetric])
    obtain js where js: "w_db w' = w_db w3\<lparr>jobs := jobs (w_db w3) @ map job_row js\<rparr>"
      "subseq (map job_IssueKey js) (IssueKeys_of ev')"
      "list_all (new_job (ev_ID ev') t (wh_maxAttempts h)) js"
      "js \<noteq> [] \<longrightarrow> has_event_id (w_db w3) (ev_ID ev')"
      using enqueue_jobs_db [of env "ev_ID ev'" t "wh_maxAttempts h" "IssueKeys_of ev'" ?w4]
      unfolding w' call_event_handlers_frame by blast
    have "has_event_key (w_db w3) (IdempotencyKey ev')"
      using event_log.insert_ok [of env ev' w2 "()" w3 "IdempotencyKey ev'"] x Inr by simp
    then have "has_event_key (w_db w') (IdempotencyKey ev)"
      using js(1) by (simp add: has_event_key_def ev'_def)
    moreover have "delivery ev' t (wh_maxAttempts h) (w_db w) (w_db w')"
      using ins js by (auto simp: delivery_def has_event_id_def)
    ultimately show thesis
      using ev' by (intro that [of ev']) (auto simp: w' accepted_def writeJSON_def)
  qed
qed

lemma event_Insert_ok:
  assumes "no_faults env" "EventType_str (ev_Type e) \<in> set event_types"
    "storable e"
    "\<not> has_event_key (w_db w) (IdempotencyKey e)" "\<not> has_event_id (w_db w) (ev_ID e)"
  shows "\<exists>w'. event_Insert env e w = (Inr (), w') \<and>
    w_db w' = w_db w\<lparr>events := events (w_db w) @ [event_row e]\<rparr> \<and>
    n_uuid w' = n_uuid w \<and> w_registry w' = w_registry w"
  using assms
  by (simp add: event_Insert_def sql_insert_event_def storable_def db_exec_def no_faults_def
      Now_def emit_def wrap_err_def Let_def)

lemma persist_and_enqueue_ok:
  assumes "no_faults env" "EventType_str (ev_Type ev) \<in> set event_types"
    "storable ev" "text_ok (WorkflowState_str t)" "int4_ok (wh_maxAttempts h)"
    "\<not> has_event_key (w_db w) (IdempotencyKey ev)" "fresh_ids env w"
  shows "\<exists>ev' js w'. persist_and_enqueue env h ev t w = (accepted ev' (WorkflowState_str t), w') \<and>
    w_db w' = w_db w\<lparr>events := events (w_db w) @ [event_row ev'],
      jobs := jobs (w_db w) @ map job_row js\<rparr> \<and>
    ev' = ev\<lparr>ev_ID := uuid_at env (n_uuid w), ReceivedAt := ReceivedAt ev'\<rparr> \<and>
    map job_IssueKey js = IssueKeys_of ev \<and> list_all (new_job (ev_ID ev') t (wh_maxAttempts h)) js"
proof -
  obtain i w1 where i: "NewString env w = (i, w1)" by fastforce
  obtain now w2 where n: "Now env w1 = (now, w2)" by fastforce
  define ev' where "ev' = ev\<lparr>ev_ID := i, ReceivedAt := now\<rparr>"
  have d2: "w_db w2 = w_db w" "i = uuid_at env (n_uuid w)" "n_uuid w2 = Suc (n_uuid w)"
    using NowD [OF n] i by (auto simp: NewString_def)
  have new: "\<not> has_event_key (w_db w2) (IdempotencyKey ev')" "\<not> has_event_id (w_db w2) (ev_ID ev')"
    using assms(6,7) d2 by (simp_all add: ev'_def fresh_ids_def)
  obtain w3 where w3: "event_Insert env ev' w2 = (Inr (), w3)"
    "w_db w3 = w_db w\<lparr>events := events (w_db w) @ [event_row ev']\<rparr>" "n_uuid w3 = Suc (n_uuid w)"
    using event_Insert_ok [OF assms(1) _ _ new] assms(2,3) d2
    by (auto simp: ev'_def storable_def event_texts_ok_def)
  let ?w4 = "call_event_handlers 0 (EventHandlers (w_registry w3)) ev' w3"
  have "has_event_id (w_db ?w4) (ev_ID ev')" "inj (uuid_at env)"
    "\<forall>n \<ge> n_uuid ?w4. \<not> has_job_id (w_db ?w4) (uuid_at env n)"
    using assms(7) w3 by (simp_all add: call_event_handlers_frame fresh_ids_def has_event_id_def
        has_job_id_def)
  moreover have "list_all text_ok (IssueKeys_of ev')"
    using assms(3) by (simp add: storable_def event_texts_ok_def ev'_def)
  ultimately have "\<exists>js. w_db (enqueue_jobs env (ev_ID ev') t (wh_maxAttempts h) (IssueKeys_of ev') ?w4) =
      w_db ?w4\<lparr>jobs := jobs (w_db ?w4) @ map job_row js\<rparr> \<and>
    map job_IssueKey js = IssueKeys_of ev' \<and>
    list_all (new_job (ev_ID ev') t (wh_maxAttempts h)) js"
    using assms(4) by (intro enqueue_jobs_ok [OF assms(1,5)])
  then
  obtain js where js: "w_db (enqueue_jobs env (ev_ID ev') t (wh_maxAttempts h) (IssueKeys_of ev') ?w4) =
      w_db w3\<lparr>jobs := jobs (w_db w3) @ map job_row js\<rparr>"
    "map job_IssueKey js = IssueKeys_of ev'"
    "list_all (new_job (ev_ID ev') t (wh_maxAttempts h)) js"
    unfolding call_event_handlers_frame by blast
  show ?thesis
    by (rule exI [where x = ev'], rule exI [where x = js])
      (use js w3 d2 in \<open>simp add: persist_and_enqueue_def i n Let_def ev'_def [symmetric],
        simp add: ev'_def\<close>)
qed

section \<open>Identifiers and patterns over a delivery\<close>

lemma fresh_idsD:
  "fresh_ids env w \<Longrightarrow> n_uuid w \<le> n \<Longrightarrow> \<not> has_event_id (w_db w) (uuid_at env n)"
  "fresh_ids env w \<Longrightarrow> n_uuid w \<le> n \<Longrightarrow> \<not> has_job_id (w_db w) (uuid_at env n)"
  "fresh_ids env w \<Longrightarrow> inj (uuid_at env)"
  by (simp_all add: fresh_ids_def)

text \<open>Identifiers stay fresh when no rows appear and the counter does not go back.\<close>

lemma fresh_ids_mono:
  assumes "fresh_ids env w" "n_uuid w \<le> n_uuid w'"
    "\<And>i. has_event_id (w_db w') i \<Longrightarrow> has_event_id (w_db w) i"
    "\<And>i. has_job_id (w_db w') i \<Longrightarrow> has_job_id (w_db w) i"
  shows "fresh_ids env w'"
  using assms unfolding fresh_ids_def by (meson order_trans)

lemma fresh_ids_step:
  assumes "fresh_ids env w" "n_uuid w' = Suc (n_uuid w)"
    and ev: "\<And>i. has_event_id (w_db w') i \<Longrightarrow> has_event_id (w_db w) i \<or> i = uuid_at env (n_uuid w)"
    and job: "\<And>i. has_job_id (w_db w') i \<Longrightarrow> has_job_id (w_db w) i \<or> i = uuid_at env (n_uuid w)"
  shows "fresh_ids env w'"
proof -
  have inj: "inj (uuid_at env)" using assms(1) by (rule fresh_idsD)
  have "\<not> has_event_id (w_db w') (uuid_at env n) \<and> \<not> has_job_id (w_db w') (uuid_at env n)"
    if "n_uuid w' \<le> n" for n
  proof -
    have "uuid_at env n \<noteq> uuid_at env (n_uuid w)" "n_uuid w \<le> n"
      using that assms(2) injD [OF inj, of n "n_uuid w"] by auto
    with ev job fresh_idsD [OF assms(1)] show ?thesis by blast
  qed
  with inj show ?thesis by (simp add: fresh_ids_def)
qed

lemma enqueue_jobs_fresh:
  assumes "fresh_ids env w"
  shows "fresh_ids env (enqueue_jobs env eid t m ks w)"
  using assms
proof (induction ks arbitrary: w)
  case (Cons k ks)
  obtain j w1 where j: "NewJob env eid k t m w = (j, w1)" by fastforce
  note nj = NewJobD [OF j]
  let ?w2 = "snd (Enqueue env j w1)"
  have "w_db ?w2 = w_db w \<or> w_db ?w2 = w_db w\<lparr>jobs := jobs (w_db w) @ [job_row j]\<rparr>"
    using Enqueue_db [of env j w1] nj(4) by (auto dest: insert_job_Inr(3))
  then have "fresh_ids env ?w2"
    using nj(3,5) by (intro fresh_ids_step [OF Cons.prems])
      (auto simp: has_job_id_def has_event_id_def)
  then show ?case using Cons.IH by (simp add: j split_beta)
qed simp

lemma persist_and_enqueue_fresh:
  assumes "fresh_ids env w"
  shows "fresh_ids env (snd (persist_and_enqueue env h ev t w))"
proof -
  obtain i w1 where i: "NewString env w = (i, w1)" by fastforce
  obtain now w2 where n: "Now env w1 = (now, w2)" by fastforce
  define ev' where "ev' = ev\<lparr>ev_ID := i, ReceivedAt := now\<rparr>"
  obtain x w3 where x: "event_Insert env ev' w2 = (x, w3)" by fastforce
  have d2: "w_db w2 = w_db w" "n_uuid w2 = Suc (n_uuid w)" "ev_ID ev' = uuid_at env (n_uuid w)"
    using NowD [OF n] i by (auto simp: NewString_def ev'_def)
  have "n_uuid w3 = Suc (n_uuid w)"
    using repo_n_uuid(1) [of env ev' w2] d2 by (simp add: x)
  moreover have "w_db w3 = w_db w \<or> w_db w3 = w_db w\<lparr>events := events (w_db w) @ [event_row ev']\<rparr>"
    using event_Insert_db [of env ev' w2] d2 by (auto simp: x elim!: insert_event_cases)
  ultimately have w3: "fresh_ids env w3"
    using d2(3) by (intro fresh_ids_step [OF assms]) (auto simp: has_job_id_def has_event_id_def)
  let ?w4 = "call_event_handlers 0 (EventHandlers (w_registry w3)) ev' w3"
  have "fresh_ids env ?w4"
    using w3 by (rule fresh_ids_mono) (simp_all add: call_event_handlers_frame)
  then show ?thesis
    using w3 by (cases x) (simp_all add: persist_and_enqueue_def i n x Let_def ev'_def [symmetric]
        enqueue_jobs_fresh)
qed

lemma persist_and_enqueue_setup: "same_setup w (snd (persist_and_enqueue env h ev t w))"
proof -
  obtain i w1 where i: "NewString env w = (i, w1)" by fastforce
  obtain now w2 where n: "Now env w1 = (now, w2)" by fastforce
  define ev' where "ev' = ev\<lparr>ev_ID := i, ReceivedAt := now\<rparr>"
  obtain x w3 where x: "event_Insert env ev' w2 = (x, w3)" by fastforce
  have "same_setup w w2" using NowD [OF n] i by (auto simp: NewString_def same_setup_def)
  also have "same_setup w2 w3" using repo_setup(1) [of w2 env ev'] by (simp add: x)
  finally have w3: "same_setup w w3" .
  also note call_event_handlers_frame(2)
  finally have "same_setup w (call_event_handlers 0 (EventHandlers (w_registry w3)) ev' w3)" .
  with w3 show ?thesis
    by (cases x) (simp_all add: persist_and_enqueue_def i n x Let_def ev'_def [symmetric]
        same_setup_trans [OF _ enqueue_jobs_setup])
qed

lemma admit_cache:
  assumes "cache_ok (w_patterns w)" "admit env h rq w = (a, w')"
  shows "cache_ok (w_patterns w')"
proof -
  have ev: "cache_ok (w_patterns w')"
    if "admit_event h ev v = (a, w')" "same_setup (snd (Now env w)) v" for ev v
  proof -
    have "cache_ok (w_patterns v)" using that(2) assms(1) by (simp add: same_setup_def Now_def)
    from admit_event_Inr(2) [OF this, of h ev] that(1) show ?thesis by simp
  qed
  show ?thesis
    using assms
    by (auto simp: admit_def Let_def same_setup_def Now_def dest!: ExistsByIdempotencyKeyD
        dest: ev [unfolded same_setup_def Now_def, simplified] split: if_splits sum.splits prod.splits)
qed

lemma distinct_first_keys: "distinct (first_keys P ts)"
  by (simp add: first_keys_def issue_keys_def split: option.split)

lemma delivery_db_inv:
  assumes "db_inv (w_db w)"
  shows "db_inv (w_db (snd (persist_and_enqueue env h ev t w)))"
proof -
  obtain i w1 where i: "NewString env w = (i, w1)" by fastforce
  obtain now w2 where n: "Now env w1 = (now, w2)" by fastforce
  define ev' where "ev' = ev\<lparr>ev_ID := i, ReceivedAt := now\<rparr>"
  obtain x w3 where x: "event_Insert env ev' w2 = (x, w3)" by fastforce
  have enq: "db_inv (w_db v) \<Longrightarrow> db_inv (w_db (enqueue_jobs env eid t m ks v))" for v eid m ks
  proof (induction ks arbitrary: v)
    case (Cons k ks)
    obtain j v1 where j: "NewJob env eid k t m v = (j, v1)" by fastforce
    show ?case using Cons repo_db_inv(2) [of v1 j env] NewJobD [OF j]
      by (simp add: j split_beta new_job_def)
  qed simp
  have "w_db w2 = w_db w" using NowD [OF n] i by (auto simp: NewString_def)
  then have w3: "db_inv (w_db w3)" using repo_db_inv(1) [of w2 env ev'] assms by (simp add: x)
  then have "db_inv (w_db (call_event_handlers 0 (EventHandlers (w_registry w3)) ev' w3))"
    by (simp add: call_event_handlers_frame)
  with w3 show ?thesis
    by (cases x) (simp_all add: persist_and_enqueue_def i n x Let_def ev'_def [symmetric] enq)
qed

end
