(* ===== verification/Server.thy ===== *)
theory Server
  imports Webhook
begin

text \<open>
  \<open>internal/server\<close> around the webhook: the admin token middleware, the two admin
  listings, the health probes and the route table of \<open>NewHandler\<close>.

  Routing, request ids, panic recovery and the rate limiter are third-party middleware.
  A request comes with its method and path, the decoded \<open>limit\<close> parameter (empty when
  there is none), the \<open>Authorization\<close> header, and whether the rate limiter lets it pass;
  \<open>None\<close> is a request that this code does not answer.
\<close>

section \<open>middleware.go\<close>

definition bearer :: go_string where "bearer = ''Bearer ''"

definition RequireAdminToken ::
    "go_string \<Rightarrow> (world \<Rightarrow> reply \<times> world) \<Rightarrow> go_string \<Rightarrow> world \<Rightarrow> reply \<times> world" where
  "RequireAdminToken token next auth w =
     (if token = '''' then (writeError 404 ''not found'', w)
      else if \<not> HasPrefix auth bearer \<or> TrimPrefix auth bearer \<noteq> token
      then (writeError 401 ''unauthorized'', w)
      else next w)"

section \<open>admin_handler.go\<close>

definition page_limit :: "int \<Rightarrow> int \<Rightarrow> go_string \<Rightarrow> int" where
  "page_limit dflt max_limit v =
     (if v \<noteq> '''' then
        (case Atoi v of
           Some n \<Rightarrow> if n > 0 \<and> n \<le> max_limit then n else dflt
         | None \<Rightarrow> dflt)
      else dflt)"

text \<open>
  The encoder takes the members of an item from the fields of its struct, under their Go names.
  A time is written in the local zone; a nil slice and a nil pointer are null. A stored JSONB
  value is written as what the server gives back for it (\<open>jsonb_value\<close>).
\<close>

definition time_json :: "env \<Rightarrow> instant \<Rightarrow> json option" where
  "time_json env t = map_option JStr (MarshalJSON_time (local_time env t))"

definition int_json :: "int \<Rightarrow> json" where "int_json n = JNum (show_int n)"

definition event_json :: "env \<Rightarrow> NormalizedEvent \<Rightarrow> json option" where
  "event_json env e =
     do {
       received \<leftarrow> time_json env (ReceivedAt e);
       Some (JObj
         [(''ID'', JStr (ev_ID e)), (''IdempotencyKey'', JStr (IdempotencyKey e)),
          (''EventType'', JStr (EventType_str (ev_Type e))),
          (''IssueKeys'', JArr (map JStr (IssueKeys_of e))),
          (''SourceBranch'', JStr (SourceBranch e)), (''TargetBranch'', JStr (TargetBranch e)),
          (''MRTitle'', JStr (MRTitle e)), (''MRIID'', int_json (MRIID e)),
          (''ProjectID'', int_json (ProjectID e)), (''AuthorEmail'', JStr (AuthorEmail e)),
          (''RawPayload'', jsonb_value env (RawPayload e)), (''ReceivedAt'', received),
          (''CommitMessages'',
            if CommitMessages e = [] then JNull else JArr (map JStr (CommitMessages e))),
          (''EmojiName'', JStr (EmojiName e)),
          (''MRState'', JStr (MRState e))]) }"

definition job_json :: "env \<Rightarrow> Job \<Rightarrow> json option" where
  "job_json env j =
     do {
       next \<leftarrow> time_json env (NextRunAt j);
       created \<leftarrow> time_json env (job_CreatedAt j);
       completed \<leftarrow> (case CompletedAt j of None \<Rightarrow> Some JNull | Some t \<Rightarrow> time_json env t);
       Some (JObj
         [(''ID'', JStr (job_ID j)), (''EventID'', JStr (job_EventID j)),
          (''Type'', JStr (JobType_str (job_Type j))),
          (''Status'', JStr (JobStatus_str (job_Status j))),
          (''IssueKey'', JStr (job_IssueKey j)),
          (''TargetState'', JStr (WorkflowState_str (TargetState j))),
          (''Payload'', jsonb_value env (job_Payload j)), (''Attempts'', int_json (Attempts j)),
          (''MaxAttempts'', int_json (MaxAttempts j)), (''LastError'', JStr (LastError j)),
          (''NextRunAt'', next), (''CreatedAt'', created), (''CompletedAt'', completed)]) }"

definition page_document :: "go_string \<Rightarrow> json option list \<Rightarrow> document" where
  "page_document name items =
     (case those items of
        None \<Rightarrow> Unencodable
      | Some vs \<Rightarrow> Fields [(name, JArr vs), (''count'', int_json (int (length items)))])"

definition listEvents :: "env \<Rightarrow> go_string \<Rightarrow> world \<Rightarrow> reply \<times> world" where
  "listEvents env v w =
     (case ListRecent env (page_limit 50 500 v) w of
        (Inl e, w1) \<Rightarrow> (writeError 500 ''failed to list events'', w1)
      | (Inr es, w1) \<Rightarrow> (writeJSON 200 (page_document ''events'' (map (event_json env) es)), w1))"

definition listFailedJobs :: "env \<Rightarrow> go_string \<Rightarrow> world \<Rightarrow> reply \<times> world" where
  "listFailedJobs env v w =
     (case ListFailed env (page_limit 200 1000 v) w of
        (Inl e, w1) \<Rightarrow> (writeError 500 ''failed to list jobs'', w1)
      | (Inr js, w1) \<Rightarrow> (writeJSON 200 (page_document ''jobs'' (map (job_json env) js)), w1))"

section \<open>health_handler.go\<close>

definition liveness :: "world \<Rightarrow> reply \<times> world" where
  "liveness w = (writeJSON 200 (Fields [(''status'', JStr ''ok'')]), w)"

definition readiness :: "env \<Rightarrow> world \<Rightarrow> reply \<times> world" where
  "readiness env w =
     (case db_call env w of
        (Some err, w1) \<Rightarrow>
          (writeJSON 503 (Fields
             [(''status'', JStr ''unavailable''), (''error'', JStr (err_text err))]), w1)
      | (None, w1) \<Rightarrow> (writeJSON 200 (Fields [(''status'', JStr ''ok'')]), w1))"

section \<open>server.go\<close>

record http_in =
  hi_Method :: go_string
  hi_Path :: go_string
  hi_Limit :: go_string
  hi_Authorization :: go_string
  hi_WithinRate :: bool
  hi_Webhook :: request

definition webhook_of :: "Config \<Rightarrow> webhookHandler" where
  "webhook_of cfg =
     \<lparr>wh_gitlabCfg = GitLab cfg, wh_workflow = Workflow cfg,
      wh_maxAttempts = wk_MaxAttempts (Worker cfg)\<rparr>"

definition NewHandler :: "env \<Rightarrow> Config \<Rightarrow> http_in \<Rightarrow> world \<Rightarrow> reply option \<times> world" where
  "NewHandler env cfg q w =
     (let admin = (\<lambda>next. RequireAdminToken (AdminToken (Server cfg)) next (hi_Authorization q) w) in
      if hi_Method q = ''GET'' \<and> hi_Path q = ''/healthz'' then apfst Some (liveness w)
      else if hi_Method q = ''GET'' \<and> hi_Path q = ''/readyz'' then apfst Some (readiness env w)
      else if hi_Method q = ''POST'' \<and> hi_Path q = ''/api/v1/webhooks/gitlab'' \<and> hi_WithinRate q
      then apfst Some (handleGitLab env (webhook_of cfg) (hi_Webhook q) w)
      else if hi_Method q = ''GET'' \<and> hi_Path q = ''/api/v1/admin/events''
      then apfst Some (admin (listEvents env (hi_Limit q)))
      else if hi_Method q = ''GET'' \<and> hi_Path q = ''/api/v1/admin/jobs/failed''
      then apfst Some (admin (listFailedJobs env (hi_Limit q)))
      else (None, w))"

record HttpServer =
  hs_Addr :: go_string
  hs_ReadTimeout :: duration
  hs_ReadHeaderTimeout :: duration
  hs_WriteTimeout :: duration
  hs_IdleTimeout :: duration

definition New_server :: "Config \<Rightarrow> HttpServer" where
  "New_server cfg =
     \<lparr>hs_Addr = '':'' @ show_int (Port (Server cfg)),
      hs_ReadTimeout = ReadTimeout (Server cfg),
      hs_ReadHeaderTimeout = 5 * nanos_per_second,
      hs_WriteTimeout = WriteTimeout (Server cfg),
      hs_IdleTimeout = 60 * nanos_per_second\<rparr>"

definition ErrServerClosed :: go_error where
  "ErrServerClosed = Errorf ''http: Server closed''"

text \<open>The argument is the error \<open>ListenAndServe\<close> returns.\<close>

definition Start :: "go_error option \<Rightarrow> go_error option" where
  "Start err =
     (case err of
        None \<Rightarrow> None
      | Some e \<Rightarrow> if e \<noteq> ErrServerClosed then Some (Wrap ''http server error'' e) else None)"

section \<open>Facts\<close>

lemma HasPrefix_TrimPrefix_iff: "HasPrefix s p \<and> TrimPrefix s p = t \<longleftrightarrow> s = p @ t"
  by (auto simp: HasPrefix_iff)

lemma RequireAdminToken_iff:
  "RequireAdminToken token next auth w =
    (if token = '''' then (writeError 404 ''not found'', w)
     else if auth = bearer @ token then next w else (writeError 401 ''unauthorized'', w))"
  using HasPrefix_TrimPrefix_iff [of auth bearer token] by (auto simp: RequireAdminToken_def)

lemma page_limit_bounds:
  "0 < dflt \<Longrightarrow> dflt \<le> m \<Longrightarrow> 0 < page_limit dflt m v \<and> page_limit dflt m v \<le> m"
  by (auto simp: page_limit_def split: option.split)

lemma reads_db [simp]:
  "w_db (snd (ListRecent env n w)) = w_db w" "w_db (snd (ListFailed env n w)) = w_db w"
  by (auto simp: ListRecent_def ListFailed_def Let_def dest!: db_callD split: prod.splits option.splits)

lemma ListFailed_Inr:
  assumes "ListFailed env n w = (Inr js, w')" "0 < n" "n \<le> 1000"
  shows "js = map job_of (sql_list_failed (nat n) (w_db w))"
  using assms by (auto simp: ListFailed_def Let_def dest!: db_callD split: prod.splits option.splits)

lemma ListRecent_Inr:
  assumes "ListRecent env n w = (Inr es, w')"
  shows "es = sql_list_recent (nat n) (w_db w)"
  using assms by (auto simp: ListRecent_def dest!: db_callD split: prod.splits option.splits if_splits)

lemma readsD:
  "ListRecent env n w = (x, w') \<Longrightarrow> w_db w' = w_db w"
  "ListFailed env n w = (y, w') \<Longrightarrow> w_db w' = w_db w"
  using reads_db [of env n w] by simp_all

lemma NewHandler_db:
  assumes "hi_Path q \<noteq> ''/api/v1/webhooks/gitlab''"
  shows "w_db (snd (NewHandler env cfg q w)) = w_db w"
proof -
  have "w_db (snd (liveness w)) = w_db w" "w_db (snd (readiness env w)) = w_db w"
    "w_db (snd (listEvents env v w)) = w_db w" "w_db (snd (listFailedJobs env v w)) = w_db w" for v
    by (auto simp: liveness_def readiness_def listEvents_def listFailedJobs_def
        dest!: db_callD readsD split: prod.splits option.splits sum.splits)
  with assms show ?thesis
    by (simp add: NewHandler_def Let_def RequireAdminToken_iff split_beta apfst_def)
qed

section \<open>Properties\<close>

text \<open>
  C39. The admin listings are guarded: with no admin token configured every request to them is
  answered 404, otherwise one whose header is not exactly Bearer and the token is answered 401,
  and in both cases nothing has happened; and no listing changes a table.
\<close>

theorem admin_is_guarded:
  assumes "hi_Method q = ''GET''"
    and "hi_Path q \<in> {''/api/v1/admin/events'', ''/api/v1/admin/jobs/failed''}"
  shows "(AdminToken (Server cfg) = '''' \<longrightarrow>
      NewHandler env cfg q w = (Some (writeError 404 ''not found''), w)) \<and>
    (AdminToken (Server cfg) \<noteq> '''' \<and> hi_Authorization q \<noteq> ''Bearer '' @ AdminToken (Server cfg) \<longrightarrow>
      NewHandler env cfg q w = (Some (writeError 401 ''unauthorized''), w)) \<and>
    w_db (snd (NewHandler env cfg q w)) = w_db w"
proof -
  have "w_db (snd (NewHandler env cfg q w)) = w_db w"
    using assms(2) by (intro NewHandler_db) auto
  with assms show ?thesis by (auto simp: NewHandler_def RequireAdminToken_iff bearer_def)
qed

theorem admin_is_guarded_witness:
  "NewHandler sample_env defaults
     \<lparr>hi_Method = ''GET'', hi_Path = ''/api/v1/admin/events'', hi_Limit = '''',
      hi_Authorization = ''Bearer '', hi_WithinRate = True,
      hi_Webhook = \<lparr>rq_Token = '''', rq_Body = '''', rq_BodyError = None\<rparr>\<rparr> empty_world =
   (Some (writeError 404 ''not found''), empty_world)"
proof -
  have "AdminToken (Server defaults) = ''''" by (simp add: defaults_def)
  then show ?thesis
    by (intro admin_is_guarded [THEN conjunct1, rule_format]) simp_all
qed

lemma those_Some: "those xs = Some ys \<longleftrightarrow> xs = map Some ys"
  by (induction xs arbitrary: ys) (auto split: option.splits)

lemma literal_utf8:
  "list_all utf8_ok [''ID'', ''EventID'', ''Type'', ''Status'', ''IssueKey'', ''TargetState'', ''Payload'',
     ''Attempts'', ''MaxAttempts'', ''LastError'', ''NextRunAt'', ''CreatedAt'', ''CompletedAt'',
     ''jobs'', ''count'']"
  by code_simp

text \<open>A value that the encoder takes and that is read back as it is, within \<open>k\<close> levels.\<close>

definition readable :: "nat \<Rightarrow> json \<Rightarrow> bool" where
  "readable k v = (numbers_read v \<and> nesting v \<le> k \<and> fix_json v = v)"

lemma readable_leaf:
  "readable k JNull" "utf8_ok s \<Longrightarrow> readable k (JStr s)" "readable k (int_json n)"
  by (simp_all add: readable_def int_json_def utf8_fix_valid)

lemma readable_obj:
  assumes "list_all (\<lambda>(n, v). utf8_ok n \<and> readable k v) ms"
  shows "readable (Suc k) (JObj ms)"
proof -
  have "numbers_read v \<and> nesting v \<le> k \<and> fix_json v = v \<and> utf8_fix n = n" if "(n, v) \<in> set ms" for n v
    using assms that by (auto simp: list_all_iff readable_def utf8_fix_valid)
  then show ?thesis by (force simp: readable_def list_all_iff fold_max_le intro!: map_idI)
qed

lemma readable_arr: "list_all (readable k) vs \<Longrightarrow> readable (Suc k) (JArr vs)"
  by (auto simp: readable_def list_all_iff fold_max_le intro!: map_idI)

lemma time_text_utf8:
  assumes "MarshalJSON_time t = Some s"
  shows "utf8_ok s"
proof -
  have int: "list_all (\<lambda>c. char_code c < 128) (show_int i)" for i
    using show_nat_digits [of "nat i"] show_nat_digits [of "nat (- i)"]
    by (auto simp: show_int_def list_all_iff is_digit_def)
  have pad: "list_all (\<lambda>c. char_code c < 128) (pad_zero k u)"
    if "list_all (\<lambda>c. char_code c < 128) u" for k u
    using that by (induction k) auto
  have "list_all (\<lambda>c. char_code c < 128) (fraction_text n)" for n
    using pad [OF int, of 9 n]
    by (auto simp: fraction_text_def Let_def list_all_iff dest: set_dropWhileD)
  moreover have "list_all (\<lambda>c. char_code c < 128) (zone_text z)" for z
    using pad int by (simp add: zone_text_def Let_def)
  moreover have "list_all (\<lambda>c. char_code c < 128) (Format_date u)" for u
    using pad int by (simp add: Format_date_def Let_def)
  ultimately show ?thesis
    using assms pad int by (intro utf8_ok_ascii) (auto simp: MarshalJSON_time_def Let_def split: if_splits)
qed

lemma readable_time: "time_json env t = Some v \<Longrightarrow> readable k v"
  by (auto simp: time_json_def intro: readable_leaf time_text_utf8)

text \<open>A row of the jobs table whose listing has an encoding that is read back.\<close>

definition listable :: "env \<Rightarrow> Job \<Rightarrow> bool" where
  "listable env j =
     (list_all utf8_ok [job_ID j, job_EventID j, JobType_str (job_Type j),
        JobStatus_str (job_Status j), job_IssueKey j, WorkflowState_str (TargetState j), LastError j] \<and>
      readable (max_nesting_depth - 3) (jsonb_value env (job_Payload j)) \<and>
      job_json env j \<noteq> None)"

lemma readable_job:
  assumes "listable env j" "job_json env j = Some v"
  shows "readable (max_nesting_depth - 2) v"
proof -
  define k where "k = max_nesting_depth - 3"
  have k: "max_nesting_depth - 2 = Suc k" by (simp add: k_def max_nesting_depth_def)
  have "readable k x" if "(case CompletedAt j of None \<Rightarrow> Some JNull | Some t \<Rightarrow> time_json env t) = Some x" for x
    using that readable_leaf(1) readable_time by (auto split: option.splits)
  with assms show ?thesis
    unfolding k job_json_def using literal_utf8
    by (auto simp: listable_def k_def [symmetric] bind_eq_Some_conv intro!: readable_obj readable_leaf
        intro: readable_time)
qed

lemma page_body:
  assumes "list_all (readable (max_nesting_depth - 2)) vs" "utf8_ok name" "name \<noteq> ''count''"
    and "(''count'' :: go_string) \<le> name" "items = map Some vs"
  shows "json_parse (response_body (writeJSON 200 (page_document name items))) =
    Some (JObj [(''count'', int_json (int (length vs))), (name, JArr vs)])"
proof -
  let ?ms = "[(name, JArr vs), (''count'', int_json (int (length vs)))]"
  have "Suc (max_nesting_depth - 2) = max_nesting_depth - 1" by (simp add: max_nesting_depth_def)
  then have "readable (max_nesting_depth - 1) (JArr vs)" using readable_arr [OF assms(1)] by simp
  then have "list_all (\<lambda>(n, v). utf8_ok n \<and> readable (max_nesting_depth - 1) v) ?ms"
    using assms(2) literal_utf8 by (simp add: readable_leaf)
  then have "readable (Suc (max_nesting_depth - 1)) (JObj ?ms)"
    "readable (Suc (max_nesting_depth - 1)) (JObj (rev ?ms))"
    by (simp_all only: readable_obj list_all_rev)
  then have r: "readable max_nesting_depth (JObj ?ms)" "readable max_nesting_depth (JObj (rev ?ms))"
    by (simp_all add: max_nesting_depth_def)
  have s: "sort_key fst ?ms = rev ?ms"
    using assms(3,4) by auto
  have "json_parse (marshal_map ?ms @ [CHR 0x0A]) = Some (fix_json (JObj (sort_key fst ?ms)))"
    using r(1) by (intro parse_marshal_map) (simp_all only: readable_def, simp)
  also have "\<dots> = Some (JObj (rev ?ms))"
    using r(2) unfolding s readable_def by (simp only:)
  finally show ?thesis
    using assms(5) those_Some [of items vs] by (simp add: writeJSON_def response_body_def page_document_def)
qed

lemma job_items:
  assumes "list_all (listable env) js"
  obtains vs where "map (job_json env) js = map Some vs" "list_all (readable (max_nesting_depth - 2)) vs"
proof
  have "\<exists>v. job_json env j = Some v" if "j \<in> set js" for j
    using assms that by (auto simp: list_all_iff listable_def)
  then show "map (job_json env) js = map Some (map (\<lambda>j. the (job_json env j)) js)"
    by fastforce
  show "list_all (readable (max_nesting_depth - 2)) (map (\<lambda>j. the (job_json env j)) js)"
    using assms readable_job by (auto simp: list_all_iff listable_def)
qed

text \<open>
  C40. A listing of failed jobs that is answered shows failed and dead jobs only, at most as many
  as were asked for, never more than 1000 and at most 200 when the parameter is missing or
  out of range, newest first. Its body is one document and decodes to the count and to the jobs
  with all their fields in this order, when the texts of the rows are UTF-8, their times have
  four-digit years and their payloads are not too deep.
\<close>

theorem failed_jobs_page:
  assumes "listFailedJobs env v w = (r, w')" "rp_Status r = 200"
    and "list_all (\<lambda>x. listable env (job_of x)) (jobs (w_db w))"
  shows "\<exists>js vs. map (job_json env) js = map Some vs \<and>
    json_parse (response_body r) = Some (JObj [(''count'', int_json (int (length js))), (''jobs'', JArr vs)]) \<and>
    length js \<le> nat (page_limit 200 1000 v) \<and> length js \<le> 1000 \<and>
    ((case Atoi v of None \<Rightarrow> True | Some n \<Rightarrow> n \<le> 0 \<or> 1000 < n) \<longrightarrow> length js \<le> 200) \<and>
    sorted (map (\<lambda>j. - job_CreatedAt j) js) \<and>
    (\<forall>j \<in> set js. \<exists>x \<in> set (jobs (w_db w)). j = job_of x \<and>
       (job_Status x = JobFailed \<or> job_Status x = JobDead))"
proof -
  let ?n = "page_limit 200 1000 v"
  let ?rows = "sql_list_failed (nat ?n) (w_db w)"
  obtain js where js: "ListFailed env ?n w = (Inr js, w')"
    "r = writeJSON 200 (page_document ''jobs'' (map (job_json env) js))"
    using assms by (auto simp: listFailedJobs_def writeError_def writeJSON_def
        split: prod.splits sum.splits)
  have n: "0 < ?n" "?n \<le> 1000" using page_limit_bounds [of 200 1000 v] by simp_all
  have js_eq: "js = map job_of ?rows" by (rule ListFailed_Inr [OF js(1) n])
  have len: "length ?rows \<le> nat ?n" by (simp add: sql_list_failed_def)
  have srt: "sorted (map (\<lambda>x. - job_CreatedAt x) ?rows)"
    by (simp add: sql_list_failed_def take_map [symmetric] sorted_wrt_take)
  have mem: "x \<in> set (jobs (w_db w)) \<and> (job_Status x = JobFailed \<or> job_Status x = JobDead)"
    if "x \<in> set ?rows" for x
    using that by (auto simp: sql_list_failed_def dest!: in_set_takeD)
  have dflt: "(case Atoi v of None \<Rightarrow> True | Some n \<Rightarrow> n \<le> 0 \<or> 1000 < n) \<Longrightarrow> ?n = 200"
    by (auto simp: page_limit_def split: option.splits)
  have "list_all (listable env) js" using mem assms(3) by (auto simp: js_eq list_all_iff)
  then obtain vs where vs: "map (job_json env) js = map Some vs" "list_all (readable (max_nesting_depth - 2)) vs"
    by (rule job_items)
  have "length vs = length js" using vs(1) by (metis length_map)
  moreover have "(''count'' :: go_string) \<le> ''jobs''" by code_simp
  ultimately have "json_parse (response_body r) =
      Some (JObj [(''count'', int_json (int (length js))), (''jobs'', JArr vs)])"
    using page_body [OF vs(2) _ _ _ vs(1), of "''jobs''"] literal_utf8 by (simp add: js(2))
  moreover have "length js \<le> nat ?n" "length js \<le> 1000"
    "(case Atoi v of None \<Rightarrow> True | Some n \<Rightarrow> n \<le> 0 \<or> 1000 < n) \<longrightarrow> length js \<le> 200"
    using len n dflt by (auto simp: js_eq)
  moreover have "sorted (map (\<lambda>j. - job_CreatedAt j) js)" using srt by (simp add: js_eq comp_def job_of_def Job.defs)
  moreover have "\<forall>j \<in> set js. \<exists>x \<in> set (jobs (w_db w)). j = job_of x \<and>
       (job_Status x = JobFailed \<or> job_Status x = JobDead)"
    using mem by (auto simp: js_eq)
  ultimately show ?thesis using vs(1) by blast
qed

text \<open>A page with one dead job, created a day after the epoch.\<close>

definition sample_dead_job :: Job where
  "sample_dead_job =
     \<lparr>job_ID = ''j'', job_EventID = ''e'', job_Type = JobJiraTransition, job_Status = JobDead,
      job_IssueKey = ''RIS-3'', TargetState = StateDone, job_Payload = ''{}'', Attempts = 5,
      MaxAttempts = 5, LastError = ''down'', NextRunAt = nanos_per_day,
      job_CreatedAt = nanos_per_day, CompletedAt = None\<rparr>"

definition dead_job_world :: world where
  "dead_job_world = empty_world\<lparr>w_db := empty_db\<lparr>jobs := [job_row sample_dead_job]\<rparr>\<rparr>"

theorem failed_jobs_page_witness:
  "\<exists>v. json_parse (response_body (fst (listFailedJobs sample_env ''9999'' dead_job_world))) =
     Some (JObj [(''count'', JNum ''1''), (''jobs'', JArr [v])]) \<and>
     job_json sample_env (job_of (job_row sample_dead_job)) = Some v"
proof -
  let ?row = "job_row sample_dead_job"
  obtain r w' where g: "listFailedJobs sample_env ''9999'' dead_job_world = (r, w')" by fastforce
  have one: "jobs (w_db dead_job_world) = [?row]" by (simp add: dead_job_world_def empty_db_def)
  have limit: "page_limit 200 1000 ''9999'' = 200" by code_simp
  have dead: "job_Status ?row = JobDead" by code_simp
  have page: "fst (listFailedJobs sample_env ''9999'' dead_job_world) =
      writeJSON 200 (page_document ''jobs'' [job_json sample_env (job_of ?row)])"
    using one dead by (simp add: listFailedJobs_def limit ListFailed_def db_call_def sql_list_failed_def
        Let_def)
  have "listable sample_env (job_of ?row)" by code_simp
  moreover have "rp_Status r = 200" using page by (simp add: g writeJSON_def)
  ultimately obtain js vs where d: "map (job_json sample_env) js = map Some vs"
    "json_parse (response_body r) = Some (JObj [(''count'', int_json (int (length js))), (''jobs'', JArr vs)])"
    using failed_jobs_page [OF g] one by auto
  obtain v where v: "job_json sample_env (job_of ?row) = Some v"
    using \<open>listable sample_env (job_of ?row)\<close> by (auto simp: listable_def)
  have "json_parse (response_body r) = Some (JObj [(''count'', int_json 1), (''jobs'', JArr [v])])"
  proof -
    have "readable (max_nesting_depth - 2) v"
      using readable_job [OF \<open>listable sample_env (job_of ?row)\<close> v] .
    moreover have "(''count'' :: go_string) \<le> ''jobs''" "utf8_ok ''jobs''" by code_simp+
    ultimately show ?thesis using page_body [of "[v]" "''jobs''"] page v by (simp add: g)
  qed
  with d(2) have "vs = [v]" by simp
  moreover from this d(1) have "length js = 1" by (metis length_map length_Cons list.size(3) One_nat_def)
  moreover have "int_json 1 = JNum ''1''" by code_simp
  ultimately show ?thesis using d(2) v by (simp add: g)
qed

end
