(* ===== verification/Reconciler.thy ===== *)
theory Reconciler
  imports Store
begin

text \<open>
  \<open>internal/worker/reconciler.go\<close>: one round of the reconciler, which returns jobs that
  run for too long to the queue and records how many there were.
\<close>

record ReconcileConfig =
  Interval :: duration
  StuckJobTimeout :: duration

definition reconciler_writeAudit ::
    "env \<Rightarrow> go_string \<Rightarrow> go_string \<Rightarrow> go_map \<Rightarrow> world \<Rightarrow> world" where
  "reconciler_writeAudit env action issueKey detail w =
     (let (i, w1) = NewString env w;
          (now, w2) = Now env w1
      in snd (audit_Insert env
           \<lparr>aud_ID = i, aud_EventID = '''', aud_JobID = '''', Action = action,
            aud_IssueKey = issueKey, Detail = marshal_map detail, aud_CreatedAt = now\<rparr> w2))"

definition resetStuckJobs :: "env \<Rightarrow> ReconcileConfig \<Rightarrow> world \<Rightarrow> world" where
  "resetStuckJobs env cfg w =
     (case ResetStuck env (StuckJobTimeout cfg) w of
        (Inl e, w1) \<Rightarrow> w1
      | (Inr count, w1) \<Rightarrow>
          if count > 0
          then reconciler_writeAudit env ''reconcile_stuck_reset'' '''' [(''count'', JInt count)] w1
          else w1)"

section \<open>Facts\<close>

lemma reconciler_writeAudit_frame [simp]:
  "jobs (w_db (reconciler_writeAudit env a k dt w)) = jobs (w_db w)"
  "events (w_db (reconciler_writeAudit env a k dt w)) = events (w_db w)"
  "w_trace (reconciler_writeAudit env a k dt w) = w_trace w"
  by (simp_all add: reconciler_writeAudit_def split_beta)

lemma reconciler_writeAudit_inv:
  "db_inv (w_db w) \<Longrightarrow> db_inv (w_db (reconciler_writeAudit env a k dt w))"
  by (simp add: reconciler_writeAudit_def split_beta repo_db_inv(8))

lemma resetStuckJobs_split:
  obtains r w1 dt where "ResetStuck env (StuckJobTimeout cfg) w = (r, w1)"
    "resetStuckJobs env cfg w \<in>
      {w1, reconciler_writeAudit env ''reconcile_stuck_reset'' '''' dt w1}"
proof -
  obtain r w1 where 1: "ResetStuck env (StuckJobTimeout cfg) w = (r, w1)" by fastforce
  have "resetStuckJobs env cfg w \<in>
      {w1, reconciler_writeAudit env ''reconcile_stuck_reset'' '''' [(''count'', JInt (projr r))] w1}"
    by (cases r) (auto simp: resetStuckJobs_def 1)
  with 1 show thesis by (rule that)
qed

lemma resetStuckJobs_jobs:
  "events (w_db (resetStuckJobs env cfg w)) = events (w_db w) \<and>
   (jobs (w_db (resetStuckJobs env cfg w)) = jobs (w_db w) \<or>
    (\<exists>now. jobs (w_db (resetStuckJobs env cfg w)) =
      jobs (update_jobs (stuck (timestamptz (clock_at env (n_clock w) - StuckJobTimeout cfg))) (reset_row now)
        (w_db w))))"
proof (cases rule: resetStuckJobs_split [of env cfg w])
  case (1 r w1 dt)
  then have "w_db w1 = w_db w \<or> (\<exists>now. w_db w1 = update_jobs
      (stuck (timestamptz (clock_at env (n_clock w) - StuckJobTimeout cfg))) (reset_row now) (w_db w))"
    using ResetStuck_db [of env "StuckJobTimeout cfg" w] by (auto simp: sql_reset_stuck_def)
  with 1(2) show ?thesis by auto
qed

lemma resetStuckJobs_inv:
  "db_inv (w_db w) \<Longrightarrow> db_inv (w_db (resetStuckJobs env cfg w))"
proof (cases rule: resetStuckJobs_split [of env cfg w])
  case (1 r w1 dt)
  moreover assume "db_inv (w_db w)"
  then have "db_inv (w_db w1)" using repo_db_inv(7) [of w env "StuckJobTimeout cfg"] 1(1) by simp
  ultimately show ?thesis by (auto simp: reconciler_writeAudit_inv)
qed

lemma count_detail:
  "json_parse (marshal_map [(''count'', JInt n)]) = Some (JObj [(''count'', JInt n)])"
  "jsonb_ok (marshal_map [(''count'', JInt n)])"
proof -
  have "text_ok ''count''" by code_simp
  then show "json_parse (marshal_map [(''count'', JInt n)]) = Some (JObj [(''count'', JInt n)])"
    "jsonb_ok (marshal_map [(''count'', JInt n)])"
    using flat_document [of "[(''count'', JInt n)]"] by simp_all
qed

section \<open>Properties\<close>

text \<open>
  C27. A round of the reconciler that goes through returns every job that has been running since
  before the timeout to the queue and touches no other; it writes one audit entry whose JSON
  detail decodes to the number of these jobs, bound to no event and no job, when there are any, and none otherwise.
\<close>

theorem reconcile_round:
  fixes env w cfg
  assumes "\<forall>n. fault_at env n = NoFault" "uuid_at env (n_uuid w) \<notin> ar_ID ` set (audit_logs (w_db w))"
  defines "cutoff \<equiv> timestamptz (clock_at env (n_clock w) - StuckJobTimeout cfg)"
  defines "count \<equiv> length (filter (stuck cutoff) (jobs (w_db w)))"
  shows "\<exists>now as. jobs (w_db (resetStuckJobs env cfg w)) =
      map (\<lambda>r. if stuck cutoff r then reset_row now r else r) (jobs (w_db w)) \<and>
    audit_logs (w_db (resetStuckJobs env cfg w)) = audit_logs (w_db w) @ as \<and>
    map (\<lambda>a. (ar_Action a, json_parse (ar_Detail a), ar_EventID a, ar_JobID a)) as =
      (if count = 0 then []
       else [(''reconcile_stuck_reset'', Some (JObj [(''count'', JInt (int count))]), None, None)])"
proof -
  let ?w = "snd (Now env w)"
  obtain w1 where 1: "ResetStuck env (StuckJobTimeout cfg) w = (Inr (int count), w1)"
    "w_db w1 = update_jobs (stuck cutoff) (reset_row (clock_at env (Suc (n_clock w)))) (w_db w)"
    "n_uuid w1 = n_uuid w"
    using assms(1)
    by (simp add: ResetStuck_def wrap_err_def db_exec_def Now_def sql_reset_stuck_def cutoff_def count_def)
  show ?thesis
  proof (cases "count = 0")
    case True
    then show ?thesis
      using 1 by (intro exI [where x = "clock_at env (Suc (n_clock w))"] exI [where x = "[]"])
        (simp add: resetStuckJobs_def jobs_update_jobs)
  next
    case False
    then show ?thesis
      using 1 assms(1,2)
      by (intro exI [where x = "clock_at env (Suc (n_clock w))"])
        (simp add: resetStuckJobs_def reconciler_writeAudit_def audit_Insert_def db_exec_def
          wrap_err_def Now_def NewString_def sql_insert_audit_def nullableString_def Let_def
          jobs_update_jobs count_detail)
  qed
qed

theorem reconcile_round_witness:
  "\<exists>now as. jobs (w_db (resetStuckJobs sample_env \<lparr>Interval = 1, StuckJobTimeout = 0\<rparr>
       (one_job_world\<lparr>n_clock := 9000, w_db := sql_claim 3 [''j''] (w_db one_job_world)\<rparr>))) =
     map (reset_row now) (jobs (sql_claim 3 [''j''] (w_db one_job_world)))"
  using reconcile_round [of sample_env "one_job_world\<lparr>n_clock := 9000,
      w_db := sql_claim 3 [''j''] (w_db one_job_world)\<rparr>" "\<lparr>Interval = 1, StuckJobTimeout = 0\<rparr>"]
  by (auto simp: one_job_world_def sql_claim_def update_jobs_def claim_row_def stuck_def timestamptz_def)

end
