(* ===== verification/Startup.thy ===== *)
theory Startup
  imports Server Executor Processor Reconciler
begin

text \<open>
  \<open>cmd/glsync/main.go\<close> and \<open>internal/store/postgres.go\<close>: how the configuration becomes
  the running parts, and the ways the program exits before it serves. Reading files,
  decoding YAML and opening connections are arguments.
\<close>

section \<open>postgres.go\<close>

record PoolConfig =
  MaxConns :: int
  MinConns :: int
  MaxConnLifetime :: duration
  MaxConnIdleTime :: duration
  HealthCheckPeriod :: duration

definition pool_config :: "DatabaseConfig \<Rightarrow> PoolConfig" where
  "pool_config cfg =
     \<lparr>MaxConns = MaxConnections cfg, MinConns = MinConnections cfg,
      MaxConnLifetime = 1 * nanos_per_hour, MaxConnIdleTime = 30 * nanos_per_minute,
      HealthCheckPeriod = 1 * nanos_per_minute\<rparr>"

definition NewPool ::
    "(go_string \<Rightarrow> 'c result) \<Rightarrow> ('c \<Rightarrow> PoolConfig \<Rightarrow> 'p result) \<Rightarrow> ('p \<Rightarrow> go_error option)
      \<Rightarrow> DatabaseConfig \<Rightarrow> 'p result" where
  "NewPool parse_config new_with_config ping cfg =
     (case parse_config (URL cfg) of
        Inl e \<Rightarrow> Inl (Wrap ''parse database url'' e)
      | Inr parsed \<Rightarrow>
          (case new_with_config parsed (pool_config cfg) of
             Inl e \<Rightarrow> Inl (Wrap ''create connection pool'' e)
           | Inr pool \<Rightarrow>
               (case ping pool of
                  Some e \<Rightarrow> Inl (Wrap ''ping database'' e)
                | None \<Rightarrow> Inr pool)))"

section \<open>main.go\<close>

record ProcessorConfig =
  Concurrency :: int
  PollInterval :: duration
  pc_MaxAttempts :: int

record 'p program =
  pg_pool :: 'p
  pg_config :: Config
  pg_webhook :: webhookHandler
  pg_executor :: Executor
  pg_processor :: ProcessorConfig
  pg_reconciler :: "ReconcileConfig option"
  pg_server :: HttpServer

definition wire :: "'p \<Rightarrow> Config \<Rightarrow> 'p program" where
  "wire pool cfg =
     \<lparr>pg_pool = pool,
      pg_config = cfg,
      pg_webhook = webhook_of cfg,
      pg_executor = NewExecutor
        (NewClient (ji_BaseURL (Jira cfg)) (Username (Jira cfg)) (ji_APIToken (Jira cfg)))
        (NewResolver (Transitions (Workflow cfg))) (InProgress (Workflow cfg)),
      pg_processor = \<lparr>Concurrency = wk_Concurrency (Worker cfg),
        PollInterval = wk_PollInterval (Worker cfg), pc_MaxAttempts = wk_MaxAttempts (Worker cfg)\<rparr>,
      pg_reconciler = (if rc_Enabled (Reconcile cfg)
        then Some \<lparr>Interval = rc_Interval (Reconcile cfg),
          StuckJobTimeout = rc_StuckJobTimeout (Reconcile cfg)\<rparr>
        else None),
      pg_server = New_server cfg\<rparr>"

datatype 'p start = Exit go_error | Running "'p program"

definition main_start ::
    "(go_string \<Rightarrow> go_string result) \<Rightarrow> (go_string \<Rightarrow> Config \<Rightarrow> Config result) \<Rightarrow> environ
      \<Rightarrow> (DatabaseConfig \<Rightarrow> 'p result) \<Rightarrow> go_string \<Rightarrow> 'p start" where
  "main_start read_file yaml_unmarshal getenv new_pool configPath =
     (case Load read_file yaml_unmarshal getenv configPath of
        Inl e \<Rightarrow> Exit e
      | Inr cfg \<Rightarrow>
          (case Validate cfg of
             Some e \<Rightarrow> Exit e
           | None \<Rightarrow>
               (case new_pool (Database cfg) of
                  Inl e \<Rightarrow> Exit e
                | Inr pool \<Rightarrow> Running (wire pool cfg))))"

lemma main_start_Running:
  assumes "main_start rd ym getenv np path = Running p"
  obtains cfg pool where "Load rd ym getenv path = Inr cfg" "Validate cfg = None"
    "np (Database cfg) = Inr pool" "p = wire pool cfg"
  using assms by (auto simp: main_start_def split: sum.splits option.splits)

section \<open>Properties\<close>

text \<open>
  C33. A program that runs has its secrets: the webhook secret and the Jira credentials it was wired
  with are those of the environment where it sets them and of the file otherwise, and none is
  empty; so a request without a token is refused before anything happens.
\<close>

theorem running_program_has_secrets:
  assumes "main_start rd ym getenv np path = Running p" "rd path = Inr data" "ym data defaults = Inr c"
  shows "WebhookSecret (wh_gitlabCfg (pg_webhook p)) =
      env_or getenv ''GLSYNC_GITLAB__WEBHOOK_SECRET'' (WebhookSecret (GitLab c)) \<and>
    ex_jira (pg_executor p) = NewClient
      (env_or getenv ''GLSYNC_JIRA__BASE_URL'' (ji_BaseURL (Jira c)))
      (env_or getenv ''GLSYNC_JIRA__USERNAME'' (Username (Jira c)))
      (env_or getenv ''GLSYNC_JIRA__API_TOKEN'' (ji_APIToken (Jira c))) \<and>
    cl_username (ex_jira (pg_executor p)) \<noteq> '''' \<and> cl_apiToken (ex_jira (pg_executor p)) \<noteq> '''' \<and>
    (rq_Token rq = '''' \<longrightarrow>
      handleGitLab env (pg_webhook p) rq w = (writeError 401 ''unauthorized'', w))"
proof -
  obtain cfg pool where 1: "Load rd ym getenv path = Inr cfg" "Validate cfg = None" "p = wire pool cfg"
    using main_start_Running [OF assms(1)] by metis
  have cfg: "cfg = applyEnv getenv c" using 1(1) assms(2,3) by (simp add: Load_def)
  have set: "WebhookSecret (GitLab cfg) \<noteq> ''''" "Username (Jira cfg) \<noteq> ''''"
    "ji_APIToken (Jira cfg) \<noteq> ''''"
    using 1(2) by (auto simp: Validate_def Let_def split: if_splits)
  show ?thesis
    using set
    by (auto simp: 1(3) wire_def webhook_of_def NewExecutor_def NewClient_def cfg applyEnv_eq
        handleGitLab_def ValidateToken_iff split: option.splits)
qed

definition keyed_config :: Config where
  "keyed_config = defaults
     \<lparr>Database := (Database defaults)\<lparr>URL := ''u''\<rparr>,
      GitLab := (GitLab defaults)\<lparr>WebhookSecret := ''s''\<rparr>,
      Jira := (Jira defaults)\<lparr>Username := ''n'', ji_APIToken := ''t''\<rparr>\<rparr>"

theorem running_program_has_secrets_witness:
  "\<exists>p. main_start (\<lambda>_. Inr '''') (\<lambda>_ _. Inr keyed_config)
      (\<lambda>v. if v = ''GLSYNC_GITLAB__WEBHOOK_SECRET'' then ''x'' else '''') (\<lambda>_. Inr ()) ''f'' = Running p \<and>
    WebhookSecret (wh_gitlabCfg (pg_webhook p)) = ''x'' \<and> cl_username (ex_jira (pg_executor p)) = ''n''"
proof -
  let ?env = "\<lambda>v. if v = ''GLSYNC_GITLAB__WEBHOOK_SECRET'' then ''x'' else ''''"
  have start: "main_start (\<lambda>_. Inr '''') (\<lambda>_ _. Inr keyed_config) ?env (\<lambda>_. Inr ()) ''f'' =
    Running (wire () (applyEnv ?env keyed_config))"
    by (simp add: main_start_def Load_def Validate_def applyEnv_eq env_or_def keyed_config_def)
  then show ?thesis
    using running_program_has_secrets [OF start, of "''''" keyed_config]
    by (simp add: keyed_config_def env_or_def NewClient_def)
qed

end
