(* ===== verification/Service.thy ===== *)
theory Service
  imports Startup "HOL-Library.Multiset"
begin

text \<open>
  The running service as a transition system. Its parts work on one world (the tables, the
  handlers, the compiled patterns) and take turns: a webhook delivery is admitted and later
  committed; the processor's loop (\<open>Run\<close> in \<open>internal/worker/processor.go\<close>) claims a
  batch on a tick, starts each job of it when the semaphore has room, and each started job
  is executed and then settled; the reconciler (\<open>Run\<close> in \<open>reconciler.go\<close>) resets stuck
  jobs on its tick; a crash loses what only the process knew.

  The steps are those at which the parts touch shared state. Between two steps of one part
  any steps of the others may happen.
\<close>

section \<open>State and steps\<close>

record service =
  sv_world :: world
  sv_admitted :: "(NormalizedEvent \<times> WorkflowState) list"
  sv_batch :: "Job list"
  sv_executing :: "Job list"
  sv_settling :: "(Job \<times> go_error option) list"

text \<open>The slots of the semaphore that are taken, and the jobs the process holds.\<close>

definition in_flight :: "service \<Rightarrow> nat" where
  "in_flight s = length (sv_executing s) + length (sv_settling s)"

definition held :: "service \<Rightarrow> Job list" where
  "held s = sv_batch s @ sv_executing s @ map fst (sv_settling s)"

definition initial :: "world \<Rightarrow> service" where
  "initial w = \<lparr>sv_world = w, sv_admitted = [], sv_batch = [], sv_executing = [], sv_settling = []\<rparr>"

text \<open>
  One step. The last rule but one takes a condition on the state in which the reconciler
  may act: \<open>\<lambda>_. True\<close> for the program as it is.
\<close>

inductive step :: "env \<Rightarrow> 'p program \<Rightarrow> (service \<Rightarrow> bool) \<Rightarrow> service \<Rightarrow> service \<Rightarrow> bool"
  for env :: env and p :: "'p program" and may_reset :: "service \<Rightarrow> bool" where
  admit_reply:
    "admit env (pg_webhook p) rq (sv_world s) = (Inl r, w) \<Longrightarrow>
     step env p may_reset s (s\<lparr>sv_world := w\<rparr>)"
| admit_event:
    "admit env (pg_webhook p) rq (sv_world s) = (Inr a, w) \<Longrightarrow>
     step env p may_reset s (s\<lparr>sv_world := w, sv_admitted := a # sv_admitted s\<rparr>)"
| commit_event:
    "sv_admitted s = xs @ (ev, t) # ys \<Longrightarrow>
     persist_and_enqueue env (pg_webhook p) ev t (sv_world s) = (r, w) \<Longrightarrow>
     step env p may_reset s (s\<lparr>sv_world := w, sv_admitted := xs @ ys\<rparr>)"
| poll_error:
    "sv_batch s = [] \<Longrightarrow>
     Dequeue env (Concurrency (pg_processor p)) (sv_world s) = (Inl e, w) \<Longrightarrow>
     step env p may_reset s (s\<lparr>sv_world := w\<rparr>)"
| poll_batch:
    "sv_batch s = [] \<Longrightarrow>
     Dequeue env (Concurrency (pg_processor p)) (sv_world s) = (Inr js, w) \<Longrightarrow>
     step env p may_reset s (s\<lparr>sv_world := w, sv_batch := js\<rparr>)"
| start_job:
    "sv_batch s = j # js \<Longrightarrow> int (in_flight s) < Concurrency (pg_processor p) \<Longrightarrow>
     step env p may_reset s (s\<lparr>sv_batch := js, sv_executing := j # sv_executing s\<rparr>)"
| execute_job:
    "sv_executing s = xs @ j # ys \<Longrightarrow>
     Execute env (pg_executor p) j (sv_world s) = (err, w) \<Longrightarrow>
     step env p may_reset s
       (s\<lparr>sv_world := call_job_handlers j err w, sv_executing := xs @ ys,
         sv_settling := (j, err) # sv_settling s\<rparr>)"
| settle_job:
    "sv_settling s = xs @ (j, err) # ys \<Longrightarrow>
     step env p may_reset s
       (s\<lparr>sv_world := settle env j err (sv_world s), sv_settling := xs @ ys\<rparr>)"
| reconcile:
    "pg_reconciler p = Some cfg \<Longrightarrow> may_reset s \<Longrightarrow>
     step env p may_reset s (s\<lparr>sv_world := resetStuckJobs env cfg (sv_world s)\<rparr>)"
| crash:
    "step env p may_reset s (initial (sv_world s\<lparr>w_patterns := Map.empty\<rparr>))"

inductive reachable :: "env \<Rightarrow> 'p program \<Rightarrow> (service \<Rightarrow> bool) \<Rightarrow> world \<Rightarrow> service \<Rightarrow> bool"
  for env :: env and p :: "'p program" and may_reset :: "service \<Rightarrow> bool" and w :: world where
  start: "reachable env p may_reset w (initial w)"
| next_step:
    "reachable env p may_reset w s \<Longrightarrow> step env p may_reset s s' \<Longrightarrow>
     reachable env p may_reset w s'"

inductive_cases step_elim: "step env p may_reset s s'"
inductive_simps reachable_simps: "reachable env p may_reset w s"

text \<open>A condition that holds at the start and is kept by every step holds throughout.\<close>

locale service_invariant =
  fixes env :: env and p :: "'p program" and may_reset :: "service \<Rightarrow> bool"
    and ok :: "world \<Rightarrow> bool" and inv :: "service \<Rightarrow> bool"
  assumes inv_initial: "ok w \<Longrightarrow> inv (initial w)"
    and inv_step: "inv s \<Longrightarrow> step env p may_reset s s' \<Longrightarrow> inv s'"
begin

lemma inv_reachable:
  assumes "reachable env p may_reset w s" "ok w"
  shows "inv s"
  using assms by (induction rule: reachable.induct) (auto intro: inv_initial inv_step)

end

section \<open>What the worker's steps keep\<close>

text \<open>The work a row stands for: what no update of a job changes.\<close>

definition same_work :: "JobRow \<Rightarrow> JobRow \<Rightarrow> bool" where
  "same_work r r' =
     (job_ID r' = job_ID r \<and> job_EventID r' = job_EventID r \<and> job_Type r' = job_Type r \<and>
      job_IssueKey r' = job_IssueKey r \<and> TargetState r' = TargetState r \<and>
      MaxAttempts r' = MaxAttempts r \<and> Attempts r \<le> Attempts r')"

definition keeps_work :: "world \<Rightarrow> world \<Rightarrow> bool" where
  "keeps_work w w' =
     (list_all2 same_work (jobs (w_db w)) (jobs (w_db w')) \<and>
      events (w_db w') = events (w_db w) \<and> n_uuid w \<le> n_uuid w')"

lemma same_work_refl [simp]: "same_work r r"
  by (simp add: same_work_def)

lemma list_same_work_refl [simp]: "list_all2 same_work rs rs"
  by (simp add: list.rel_refl)

lemma list_same_work_update:
  "keeps_row f \<Longrightarrow> jobs d' = jobs (update_jobs P f d) \<Longrightarrow> list_all2 same_work (jobs d) (jobs d')"
  by (auto simp: jobs_update_jobs list_all2_map2 same_work_def keeps_row_def
      intro: list.rel_refl_strong)

lemma list_same_work_maps:
  assumes "list_all2 same_work rs rs'"
  shows "map job_ID rs' = map job_ID rs"
    "map (\<lambda>r. (job_EventID r, job_IssueKey r)) rs' = map (\<lambda>r. (job_EventID r, job_IssueKey r)) rs"
  using assms by (induction rule: list_all2_induct) (simp_all add: same_work_def)

lemma keeps_work_refl [simp]: "keeps_work w w"
  by (simp add: keeps_work_def)

lemma keeps_work_trans [trans]:
  assumes "keeps_work u v" "keeps_work v w"
  shows "keeps_work u w"
proof -
  have "list_all2 same_work (jobs (w_db u)) (jobs (w_db w))"
    by (rule list_all2_trans [of same_work same_work same_work])
      (use assms in \<open>auto simp: keeps_work_def same_work_def\<close>)
  with assms show ?thesis by (auto simp: keeps_work_def)
qed

lemma keeps_work_ids:
  assumes "keeps_work w w'"
  shows "has_job_id (w_db w') = has_job_id (w_db w)" "has_event_id (w_db w') = has_event_id (w_db w)"
    "has_event_key (w_db w') = has_event_key (w_db w)"
  using assms list_same_work_maps(1) [of "jobs (w_db w)" "jobs (w_db w')"]
  by (auto simp: keeps_work_def has_event_id_def has_event_key_def fun_eq_iff
      dest: has_job_id_jobs)

lemma Dequeue_setup [simp]:
  "n_uuid (snd (Dequeue env n w)) = n_uuid w" "same_setup w (snd (Dequeue env n w))"
  by (auto simp: Dequeue_def db_call_def Now_def Let_def same_setup_def split: fault.splits if_splits)

lemma Dequeue_keeps_work: "keeps_work w (snd (Dequeue env n w))"
  using Dequeue_db [of env n w]
  by (auto simp: keeps_work_def claimed_db_def sql_claim_def
      intro: list_same_work_update [OF keeps_rows(4)])

lemma sends_only_keeps_work: "sends_only w w' \<Longrightarrow> keeps_work w w'"
  by (simp add: sends_only_def keeps_work_def)

lemma call_job_handlers_keeps_work: "keeps_work w (call_job_handlers j err w)"
  by (simp add: keeps_work_def)

lemma settle_setup: "same_setup w (settle env j err w) \<and> n_uuid w \<le> n_uuid (settle env j err w)"
proof (cases err)
  case None
  have "same_setup w (snd (MarkCompleted env (job_ID j) w))" by simp
  also note job_writeAudit_frame(4)
  finally show ?thesis using None by (simp add: settle_def settle_ok_def)
next
  case (Some e)
  show ?thesis
  proof (cases rule: settle_error_cases [of j e env w])
    case 1
    have "same_setup w (job_writeAudit env j ''transition_failed'' (failed_detail j e) w)" by simp
    also note repo_setup(6)
    also note job_writeAudit_frame(4)
    finally show ?thesis using 1 Some by (simp add: settle_def)
  next
    case 2
    have "same_setup w (job_writeAudit env j ''transition_failed'' (failed_detail j e) w)" by simp
    also note Now_simps(4)
    also note repo_setup(5)
    finally show ?thesis using 2 Some by (simp add: settle_def split_beta)
  qed
qed

lemma settle_keeps_work: "keeps_work w (settle env j err w)"
  using settle_jobs [of env j err w] settle_setup [of w env j err] settle_frame [of env j err w]
  by (auto simp: keeps_work_def settled_def intro: list_same_work_update [OF keeps_outcome_row])

lemma resetStuckJobs_setup:
  "same_setup w (resetStuckJobs env cfg w) \<and> n_uuid w \<le> n_uuid (resetStuckJobs env cfg w)"
proof (cases rule: resetStuckJobs_split [of env cfg w])
  case (1 r w1 dt)
  have "same_setup w w1 \<and> n_uuid w1 = n_uuid w"
    using 1(1) db_exec_frame(2) [of "snd (Now env w)" env] db_exec_frame(3) [of env _ "snd (Now env w)"]
    by (auto simp: ResetStuck_def split_beta prod_eq_iff same_setup_def Now_def)
  moreover have "same_setup w1 (reconciler_writeAudit env a k dt w1) \<and>
      n_uuid (reconciler_writeAudit env a k dt w1) = Suc (n_uuid w1)" for a k
    using repo_setup(7) by (simp add: reconciler_writeAudit_def split_beta same_setup_def
        Now_def NewString_def)
  ultimately show ?thesis using 1(2) by (auto simp: same_setup_def)
qed

lemma resetStuckJobs_keeps_work: "keeps_work w (resetStuckJobs env cfg w)"
  using resetStuckJobs_jobs [of env cfg w] resetStuckJobs_setup [of w env cfg]
  by (auto simp: keeps_work_def intro: list_same_work_update [OF keeps_rows(5)])

text \<open>A step is a commit, or it keeps the work of every row.\<close>

lemma step_kinds:
  assumes "step env p R s s'"
  obtains "keeps_work (sv_world s) (sv_world s')"
  | ev t where "(ev, t) \<in> set (sv_admitted s)"
      "sv_world s' = snd (persist_and_enqueue env (pg_webhook p) ev t (sv_world s))"
      "set (sv_admitted s') \<subseteq> set (sv_admitted s)" "held s' = held s"
  using assms
proof (cases rule: step.cases)
  case (admit_reply rq r w)
  then show thesis using admit_frame that(1) by (fastforce simp: keeps_work_def)
next
  case (admit_event rq a w)
  then show thesis using admit_frame that(1) by (fastforce simp: keeps_work_def)
next
  case (commit_event xs ev t ys r w)
  then show thesis using that(2) [of ev t] by (auto simp: held_def)
next
  case (poll_error e w)
  then show thesis
    using Dequeue_keeps_work [of "sv_world s" env "Concurrency (pg_processor p)"] that(1) by simp
next
  case (poll_batch js w)
  then show thesis
    using Dequeue_keeps_work [of "sv_world s" env "Concurrency (pg_processor p)"] that(1) by simp
next
  case (execute_job xs j ys err w)
  have "keeps_work (sv_world s) w"
    using Execute_sends_only [OF execute_job(3)] by (rule sends_only_keeps_work)
  also note call_job_handlers_keeps_work
  finally show thesis using that(1) execute_job by simp
next
  case (crash)
  then show thesis using that(1) by (simp add: keeps_work_def initial_def)
qed (use that(1) in \<open>simp_all add: settle_keeps_work resetStuckJobs_keeps_work\<close>)

section \<open>The tables stay well formed\<close>

definition tables_ok :: "service \<Rightarrow> bool" where
  "tables_ok s = db_inv (w_db (sv_world s))"

lemma step_tables_ok:
  assumes "tables_ok s" "step env p R s s'"
  shows "tables_ok s'"
  using assms(2)
proof (cases rule: step.cases)
  case (execute_job xs j ys err w)
  then show ?thesis using assms(1) Execute_sends_only [OF execute_job(3)]
    by (simp add: tables_ok_def sends_only_def)
next
  case (poll_error e w)
  then show ?thesis
    using assms(1) repo_db_inv(3) [of "sv_world s" env "Concurrency (pg_processor p)"]
    by (simp add: tables_ok_def)
next
  case (poll_batch js w)
  then show ?thesis
    using assms(1) repo_db_inv(3) [of "sv_world s" env "Concurrency (pg_processor p)"]
    by (simp add: tables_ok_def)
next
  case (commit_event xs ev t ys r w)
  then show ?thesis
    using assms(1) delivery_db_inv [of "sv_world s" env "pg_webhook p" ev t]
    by (simp add: tables_ok_def)
qed (use assms(1) in \<open>auto simp: tables_ok_def settle_inv resetStuckJobs_inv initial_def
      dest: admit_frame\<close>)

interpretation tables: service_invariant env p R "\<lambda>w. db_inv (w_db w)" tables_ok for env p R
  by standard (auto simp: tables_ok_def initial_def dest: step_tables_ok [unfolded tables_ok_def])

section \<open>The semaphore and the batch are bounded\<close>

definition slots_ok :: "'p program \<Rightarrow> service \<Rightarrow> bool" where
  "slots_ok p s =
     (int (in_flight s) \<le> max 0 (Concurrency (pg_processor p)) \<and>
      length (sv_batch s) \<le> nat (Concurrency (pg_processor p)))"

lemma step_slots_ok:
  assumes "slots_ok p s" "step env p R s s'"
  shows "slots_ok p s'"
  using assms(2)
proof (cases rule: step.cases)
  case (poll_batch js w)
  then have "length js \<le> nat (Concurrency (pg_processor p))"
    by (auto dest!: Dequeue_Inr simp: batch_of_def select_due_bounds)
  then show ?thesis using assms(1) poll_batch by (simp add: slots_ok_def in_flight_def)
qed (use assms(1) in \<open>auto simp: slots_ok_def in_flight_def initial_def\<close>)

interpretation slots: service_invariant env p R "\<lambda>w. True" "slots_ok p" for env p R
proof
  show "slots_ok p s'" if "slots_ok p s" "step env p R s s'" for s s'
    using that by (rule step_slots_ok)
qed (simp add: slots_ok_def initial_def in_flight_def)

section \<open>One job per event and issue\<close>

definition work_pairs :: "db \<Rightarrow> (go_string \<times> go_string) list" where
  "work_pairs d = map (\<lambda>r. (job_EventID r, job_IssueKey r)) (jobs d)"

definition once_ok :: "env \<Rightarrow> service \<Rightarrow> bool" where
  "once_ok env s =
     (db_inv (w_db (sv_world s)) \<and> fresh_ids env (sv_world s) \<and>
      cache_ok (w_patterns (sv_world s)) \<and>
      list_all (\<lambda>(ev, t). distinct (IssueKeys_of ev)) (sv_admitted s) \<and>
      distinct (work_pairs (w_db (sv_world s))))"

lemma delivery_work_pairs:
  assumes "delivery ev t m d d'" "db_inv d" "\<not> has_event_id d (ev_ID ev)"
    and "distinct (IssueKeys_of ev)" "distinct (work_pairs d)"
  shows "distinct (work_pairs d')"
proof -
  obtain js where js: "jobs d' = jobs d @ map job_row js"
    "subseq (map job_IssueKey js) (IssueKeys_of ev)" "list_all (new_job (ev_ID ev) t m) js"
    using assms(1) by (auto simp: delivery_def)
  have "distinct (map job_IssueKey js)"
    using js(2) assms(4) subseqs_distinctD [of "map job_IssueKey js" "IssueKeys_of ev"] by simp
  then have "distinct (map (\<lambda>r. (job_EventID r, job_IssueKey r)) (map job_row js))"
    by (auto simp: distinct_map inj_on_def comp_def)
  moreover have "job_EventID r \<noteq> ev_ID ev" if "r \<in> set (jobs d)" for r
    using assms(2,3) that by (auto simp: db_inv_def)
  ultimately show ?thesis
    using assms(5) js(3) by (auto simp: work_pairs_def js(1) list_all_iff new_job_def)
qed

lemma keeps_work_once:
  assumes "keeps_work w w'"
  shows "fresh_ids env w \<Longrightarrow> fresh_ids env w'" "work_pairs (w_db w') = work_pairs (w_db w)"
  using assms keeps_work_ids [OF assms]
    list_same_work_maps(2) [of "jobs (w_db w)" "jobs (w_db w')"]
  by (auto simp: keeps_work_def work_pairs_def intro: fresh_ids_mono)

text \<open>Caches and admitted events over a step.\<close>

lemma step_patterns:
  assumes "step env p R s s'" "cache_ok (w_patterns (sv_world s))"
  shows "cache_ok (w_patterns (sv_world s'))"
  using assms(1)
proof (cases rule: step.cases)
  case (execute_job xs j ys err w)
  then show ?thesis
    using assms(2) Execute_sends_only [OF execute_job(3)] call_job_handlers_frame(2) [of w j err]
    by (simp add: sends_only_def same_setup_def)
next
  case (commit_event xs ev t ys r w)
  then show ?thesis
    using assms(2) persist_and_enqueue_setup [of "sv_world s" env "pg_webhook p" ev t]
    by (simp add: same_setup_def)
next
  case (poll_error e w)
  then show ?thesis
    using assms(2) Dequeue_setup(2) [of "sv_world s" env "Concurrency (pg_processor p)"]
    by (simp add: same_setup_def)
next
  case (poll_batch js w)
  then show ?thesis
    using assms(2) Dequeue_setup(2) [of "sv_world s" env "Concurrency (pg_processor p)"]
    by (simp add: same_setup_def)
next
  case (settle_job xs j err ys)
  then show ?thesis
    using assms(2) settle_setup [of "sv_world s" env j err] by (simp add: same_setup_def)
next
  case (reconcile cfg)
  then show ?thesis
    using assms(2) resetStuckJobs_setup [of "sv_world s" env cfg] by (simp add: same_setup_def)
qed (use assms(2) in \<open>auto simp: initial_def dest: admit_cache\<close>)

lemma step_admitted_distinct:
  assumes "step env p R s s'" "cache_ok (w_patterns (sv_world s))"
    "list_all (\<lambda>(ev, t). distinct (IssueKeys_of ev)) (sv_admitted s)"
  shows "list_all (\<lambda>(ev, t). distinct (IssueKeys_of ev)) (sv_admitted s')"
  using assms(1)
proof (cases rule: step.cases)
  case (admit_event rq a w)
  obtain ev t where a: "a = (ev, t)" by fastforce
  have "distinct (IssueKeys_of ev)"
    using admit_event(2) assms(2) unfolding a by (elim admit_Inr) (simp add: distinct_first_keys)+
  then show ?thesis using assms(3) admit_event(1) a by simp
qed (use assms(3) in \<open>auto simp: initial_def\<close>)

lemma step_once_ok:
  assumes "once_ok env s" "step env p R s s'"
  shows "once_ok env s'"
proof -
  have inv: "db_inv (w_db (sv_world s'))" "cache_ok (w_patterns (sv_world s'))"
    "list_all (\<lambda>(ev, t). distinct (IssueKeys_of ev)) (sv_admitted s')"
    using assms step_tables_ok [of s env p R s'] step_patterns [OF assms(2)]
      step_admitted_distinct [OF assms(2)]
    by (simp_all add: once_ok_def tables_ok_def)
  from assms(2) have "fresh_ids env (sv_world s') \<and> distinct (work_pairs (w_db (sv_world s')))"
  proof (cases rule: step_kinds)
    case 1
    then show ?thesis using keeps_work_once assms(1) by (simp add: once_ok_def)
  next
    case (2 ev t)
    let ?r = "persist_and_enqueue env (pg_webhook p) ev t (sv_world s)"
    obtain ev' where ev': "delivery ev' t (wh_maxAttempts (pg_webhook p)) (w_db (sv_world s))
        (w_db (sv_world s'))"
      "ev' = ev\<lparr>ev_ID := uuid_at env (n_uuid (sv_world s)), ReceivedAt := ReceivedAt ev'\<rparr>"
      using persist_and_enqueue_delivery [of env "pg_webhook p" ev t "sv_world s" "fst ?r" "snd ?r"]
        2(2) by auto
    from ev'(2) have id: "ev_ID ev' = uuid_at env (n_uuid (sv_world s))"
      "IssueKeys_of ev' = IssueKeys_of ev"
      by (metis NormalizedEvent.select_convs(1) NormalizedEvent.surjective
          NormalizedEvent.update_convs(1,12), metis NormalizedEvent.select_convs(4)
          NormalizedEvent.surjective NormalizedEvent.update_convs(1,12))
    have "\<not> has_event_id (w_db (sv_world s)) (ev_ID ev')"
      using assms(1) by (simp add: id once_ok_def fresh_idsD(1))
    moreover have "distinct (IssueKeys_of ev')"
      using assms(1) 2(1) by (auto simp: id once_ok_def list_all_iff)
    ultimately have "distinct (work_pairs (w_db (sv_world s')))"
      using delivery_work_pairs [OF ev'(1)] assms(1) by (simp add: once_ok_def)
    with 2(2) assms(1) show ?thesis by (simp add: once_ok_def persist_and_enqueue_fresh)
  qed
  with inv show ?thesis by (simp add: once_ok_def)
qed

interpretation once: service_invariant env p R
  "\<lambda>w. db_inv (w_db w) \<and> fresh_ids env w \<and> cache_ok (w_patterns w) \<and> distinct (work_pairs (w_db w))"
  "once_ok env" for env p R
proof
  show "once_ok env s'" if "once_ok env s" "step env p R s s'" for s s'
    using that by (rule step_once_ok)
qed (simp add: once_ok_def initial_def)

section \<open>Jobs are held once\<close>

text \<open>
  The reconciler is timely when no job the process still holds has been running for longer
  than the timeout.
\<close>

definition timely :: "env \<Rightarrow> 'p program \<Rightarrow> service \<Rightarrow> bool" where
  "timely env p s =
     (\<forall>cfg j r. pg_reconciler p = Some cfg \<longrightarrow> j \<in> set (held s) \<longrightarrow>
        job_lookup (w_db (sv_world s)) (job_ID j) = Some r \<longrightarrow>
        \<not> stuck (timestamptz (clock_at env (n_clock (sv_world s)) - StuckJobTimeout cfg)) r)"

definition holds :: "db \<Rightarrow> Job \<Rightarrow> bool" where
  "holds d j =
     (\<exists>r. job_lookup d (job_ID j) = Some r \<and> job_Status r = JobRunning \<and>
        Attempts r = Attempts j \<and> MaxAttempts r = MaxAttempts j)"

definition attempts_ok :: "JobRow \<Rightarrow> bool" where
  "attempts_ok r =
     (Attempts r \<le> max 1 (MaxAttempts r) \<and>
      (job_Status r \<in> {JobPending, JobRunning, JobFailed} \<longrightarrow> Attempts r < max 1 (MaxAttempts r)))"

definition owned_ok :: "service \<Rightarrow> bool" where
  "owned_ok s =
     (db_inv (w_db (sv_world s)) \<and> distinct (map job_ID (held s)) \<and>
      list_all (holds (w_db (sv_world s))) (held s) \<and>
      list_all attempts_ok (jobs (w_db (sv_world s))))"

lemma job_lookup_cong: "jobs d' = jobs d \<Longrightarrow> job_lookup d' = job_lookup d"
  by (simp add: job_lookup_def fun_eq_iff)

lemma holds_cong: "jobs d' = jobs d \<Longrightarrow> holds d' = holds d"
  using job_lookup_cong [of d' d] by (simp add: holds_def fun_eq_iff)

lemma holds_append:
  assumes "jobs d' = jobs d @ rs" "holds d j"
  shows "holds d' j"
proof -
  obtain r where r: "job_lookup d (job_ID j) = Some r" "job_Status r = JobRunning"
    "Attempts r = Attempts j" "MaxAttempts r = MaxAttempts j"
    using assms(2) by (auto simp: holds_def)
  have "job_lookup d' (job_ID j) = Some r"
    using r(1) by (simp add: job_lookup_def assms(1) find_append)
  with r show ?thesis by (simp add: holds_def)
qed

lemma holds_update:
  assumes "jobs d' = jobs (update_jobs P f d)" "keeps_row f" "holds d j"
    and "\<And>r. job_lookup d (job_ID j) = Some r \<Longrightarrow> \<not> P r"
  shows "holds d' j"
  using assms(3,4) job_lookup_update [OF assms(2), of P d] job_lookup_cong [OF assms(1)]
  by (auto simp: holds_def)

lemma attempts_ok_update:
  assumes "jobs d' = jobs (update_jobs P f d)" "list_all attempts_ok (jobs d)"
    and "\<And>r. r \<in> set (jobs d) \<Longrightarrow> P r \<Longrightarrow> attempts_ok r \<Longrightarrow> attempts_ok (f r)"
  shows "list_all attempts_ok (jobs d')"
  using assms by (auto simp: jobs_update_jobs list_all_iff)

lemma attempts_ok_rows [simp]:
  "attempts_ok r \<Longrightarrow> attempts_ok (complete_row now r)"
  "due now r \<Longrightarrow> attempts_ok r \<Longrightarrow> attempts_ok (claim_row now' r)"
  "stuck cutoff r \<Longrightarrow> attempts_ok r \<Longrightarrow> attempts_ok (reset_row now' r)"
  by (auto simp: attempts_ok_def step_simps due_def stuck_def)

lemma new_job_row_ok:
  assumes "new_job eid t m j"
  shows "attempts_ok (job_row j)"
  using assms by (auto simp: attempts_ok_def new_job_def less_max_iff_disj)

lemma attempts_ok_outcome:
  assumes "attempts_ok r" "job_Status r = JobRunning" "Attempts r = Attempts j"
    "MaxAttempts r = MaxAttempts j"
  shows "attempts_ok (outcome_row (decide j err) now r)"
  using assms by (auto simp: decide_def attempts_ok_def step_simps split: option.split)

text \<open>A claim takes rows that nobody holds.\<close>

lemma due_not_held:
  assumes "db_inv d" "holds d j" "r \<in> set (jobs d)" "due now r"
  shows "job_ID r \<noteq> job_ID j"
proof
  assume eq: "job_ID r = job_ID j"
  have "job_lookup d (job_ID r) = Some r"
    using assms(1,3) by (intro job_lookup_in) (auto simp: db_inv_def)
  with assms(2,4) eq show False by (auto simp: holds_def due_def)
qed

lemma batch_rows:
  assumes "db_inv (w_db w)" "r \<in> set (batch_of env n w)"
  shows "r \<in> set (jobs (w_db w))" "due (clock_at env (n_clock w)) r"
    "job_lookup (w_db w) (job_ID r) = Some r"
  using set_select_due [OF assms(2) [unfolded batch_of_def]] assms(1)
  by (auto simp: db_inv_def intro: job_lookup_in)

lemma claimed_owned:
  assumes inv: "db_inv (w_db w)" and h: "list_all (holds (w_db w)) js"
    and a: "list_all attempts_ok (jobs (w_db w))" and d'_def: "d' = claimed_db env n w"
  shows "list_all (holds d') js" "list_all attempts_ok (jobs d')"
    "list_all (holds d') (map job_of (batch_of env n w))"
    "set (map job_ID js) \<inter> set (map job_ID (batch_of env n w)) = {}"
proof -
  let ?b = "batch_of env n w"
  have d': "jobs d' = jobs (update_jobs (\<lambda>r. job_ID r \<in> set (map job_ID ?b))
      (claim_row (clock_at env (n_clock w))) (w_db w))"
    by (simp add: d'_def claimed_db_def sql_claim_def)
  have ne: "job_ID r \<noteq> job_ID j" if "r \<in> set ?b" "j \<in> set js" for r j
    using due_not_held [OF inv, of j r] batch_rows [OF inv that(1)] that(2) h
    by (auto simp: list_all_iff)
  then show "set (map job_ID js) \<inter> set (map job_ID ?b) = {}" by fastforce
  have "holds d' j" if "j \<in> set js" for j
    by (rule holds_update [OF d']) (use ne that h in \<open>auto simp: list_all_iff dest!: job_lookup_Some\<close>)
  then show "list_all (holds d') js" by (simp add: list_all_iff)
  have "due (clock_at env (n_clock w)) r" if r: "r \<in> set (jobs (w_db w))" "job_ID r \<in> set (map job_ID ?b)" for r
  proof -
    obtain r' where r': "r' \<in> set ?b" "job_ID r' = job_ID r" using r(2) by auto
    have "job_lookup (w_db w) (job_ID r) = Some r"
      using inv r(1) by (intro job_lookup_in) (auto simp: db_inv_def)
    with batch_rows [OF inv r'(1)] r'(2) show ?thesis by simp
  qed
  then show "list_all attempts_ok (jobs d')"
    by (intro attempts_ok_update [OF d' a] attempts_ok_rows(2)) blast+
  have "holds d' (job_of r)" if "r \<in> set ?b" for r
    using that batch_rows(3) [OF inv that] job_lookup_cong [OF d']
      job_lookup_update [OF keeps_rows(4), of _ _ "w_db w"]
    by (auto simp: holds_def step_simps)
  then show "list_all (holds d') (map job_of ?b)" by (simp add: list_all_iff)
qed

lemma distinct_sub_mset:
  assumes "mset xs \<subseteq># mset ys" "distinct ys"
  shows "distinct xs"
proof -
  obtain M where "mset ys = mset xs + M" using assms(1) by (auto simp: mset_subset_eq_exists_conv)
  moreover obtain zs where "M = mset zs" using ex_mset [of M] by blast
  ultimately have "mset ys = mset (xs @ zs)" by simp
  then have "distinct (xs @ zs)" using assms(2) mset_eq_imp_distinct_iff by blast
  then show ?thesis by simp
qed

lemma owned_same_jobs:
  assumes "owned_ok s" "jobs (w_db (sv_world s')) = jobs (w_db (sv_world s))"
    "db_inv (w_db (sv_world s'))" "mset (held s') \<subseteq># mset (held s)"
  shows "owned_ok s'"
proof -
  have "mset (map job_ID (held s')) \<subseteq># mset (map job_ID (held s))"
    using assms(4) by (simp add: image_mset_subseteq_mono)
  moreover have "distinct (map job_ID (held s))"
    using assms(1) by (simp add: owned_ok_def)
  ultimately have "distinct (map job_ID (held s'))" by (rule distinct_sub_mset)
  moreover have "set (held s') \<subseteq> set (held s)"
    using set_mset_mono [OF assms(4)] by simp
  ultimately show ?thesis
    using assms(1-3) holds_cong [OF assms(2)] by (auto simp: owned_ok_def list_all_iff)
qed

lemma settled_owned:
  assumes inv: "db_inv d" and h: "list_all (holds d) (j # js)" and a: "list_all attempts_ok (jobs d)"
    and dist: "distinct (map job_ID (j # js))"
    and d': "jobs d' = settled j err now d"
  shows "list_all (holds d') js" "list_all attempts_ok (jobs d')"
proof -
  note d'' = d' [unfolded settled_def]
  have "holds d' k" if "k \<in> set js" for k
    by (rule holds_update [OF d'']) (use that h dist in \<open>auto simp: list_all_iff dest!: job_lookup_Some\<close>)
  then show "list_all (holds d') js" by (simp add: list_all_iff)
  have "attempts_ok (outcome_row (decide j err) now r)"
    if "r \<in> set (jobs d)" "job_ID r = job_ID j" "attempts_ok r" for r
  proof -
    have "job_lookup d (job_ID r) = Some r"
      using inv that(1) by (intro job_lookup_in) (auto simp: db_inv_def)
    with h that(2,3) show ?thesis by (auto simp: holds_def intro!: attempts_ok_outcome)
  qed
  then show "list_all attempts_ok (jobs d')"
    by (intro attempts_ok_update [OF d'' a]) auto
qed

lemma reset_owned:
  assumes "list_all (holds d) js" "list_all attempts_ok (jobs d)"
    and d': "jobs d' = jobs (update_jobs (stuck cutoff) (reset_row now) d)"
    and t: "\<And>j r. j \<in> set js \<Longrightarrow> job_lookup d (job_ID j) = Some r \<Longrightarrow> \<not> stuck cutoff r"
  shows "list_all (holds d') js" "list_all attempts_ok (jobs d')"
proof -
  have "holds d' j" if "j \<in> set js" for j
    using assms(1) that t [OF that] by (intro holds_update [OF d']) (auto simp: list_all_iff)
  then show "list_all (holds d') js" by (simp add: list_all_iff)
  show "list_all attempts_ok (jobs d')"
    by (rule attempts_ok_update [OF d' assms(2)]) simp
qed

lemma commit_owned:
  assumes "list_all (holds d) js" "list_all attempts_ok (jobs d)" "delivery ev t m d d'"
  shows "list_all (holds d') js" "list_all attempts_ok (jobs d')"
proof -
  obtain ks where ks: "jobs d' = jobs d @ map job_row ks" "list_all (new_job (ev_ID ev) t m) ks"
    using assms(3) by (auto simp: delivery_def)
  show "list_all (holds d') js"
    using assms(1) holds_append [OF ks(1)] by (simp add: list_all_iff)
  show "list_all attempts_ok (jobs d')"
    using assms(2) ks by (auto simp: list_all_iff intro: new_job_row_ok)
qed

lemma step_owned_ok:
  assumes "owned_ok s" "step env p (timely env p) s s'"
  shows "owned_ok s'"
proof -
  have inv: "db_inv (w_db (sv_world s))" "db_inv (w_db (sv_world s'))"
    using assms(1) step_tables_ok [OF _ assms(2)] by (simp_all add: owned_ok_def tables_ok_def)
  show ?thesis using assms(2)
  proof (cases rule: step.cases)
    case (admit_reply rq r w)
    then show ?thesis using inv(2)
      by (intro owned_same_jobs [OF assms(1)]) (auto simp: held_def dest: admit_frame)
  next
    case (admit_event rq a w)
    then show ?thesis using inv(2)
      by (intro owned_same_jobs [OF assms(1)]) (auto simp: held_def dest: admit_frame)
  next
    case (commit_event xs ev t ys r w)
    obtain ev' where "delivery ev' t (wh_maxAttempts (pg_webhook p)) (w_db (sv_world s)) (w_db w)"
      using persist_and_enqueue_delivery [OF commit_event(3)] by blast
    from commit_owned [OF _ _ this, of "held s"] assms(1) inv(2) commit_event(1)
    show ?thesis by (simp add: owned_ok_def held_def)
  next
    case (poll_error e w)
    from Dequeue_db [of env "Concurrency (pg_processor p)" "sv_world s"] poll_error
    consider "w_db w = w_db (sv_world s)"
      | "w_db w = claimed_db env (Concurrency (pg_processor p)) (sv_world s)" by auto
    then show ?thesis
    proof cases
      case 1
      then show ?thesis using inv(2) poll_error
        by (intro owned_same_jobs [OF assms(1)]) (auto simp: held_def)
    next
      case 2
      from claimed_owned [OF inv(1) _ _ 2, of "held s"] assms(1) inv(2) poll_error(1)
      show ?thesis by (simp add: owned_ok_def held_def)
    qed
  next
    case (poll_batch js w)
    note b = Dequeue_Inr [OF poll_batch(3)]
    let ?b = "batch_of env (Concurrency (pg_processor p)) (sv_world s)"
    have h: "held s' = js @ held s" using poll_batch by (simp add: held_def)
    have "distinct (map job_ID ?b)"
      using inv(1) by (auto simp: batch_of_def db_inv_def intro: distinct_select_due)
    moreover have "map job_ID js = map job_ID ?b" using b by (simp add: comp_def)
    moreover note claimed_owned [OF inv(1), of "held s" "w_db w" env "Concurrency (pg_processor p)"]
    ultimately show ?thesis
      using assms(1) inv(2) b poll_batch(1) unfolding owned_ok_def h
      by (simp add: Int_commute comp_def)
  next
    case (start_job j js)
    then show ?thesis using inv(2)
      by (intro owned_same_jobs [OF assms(1)]) (auto simp: held_def)
  next
    case (execute_job xs j ys err w)
    then show ?thesis using inv(2) Execute_sends_only [OF execute_job(3)]
      by (intro owned_same_jobs [OF assms(1)]) (auto simp: held_def sends_only_def)
  next
    case (settle_job xs j err ys)
    let ?js = "sv_batch s @ sv_executing s @ map fst (xs @ ys)"
    let ?d = "w_db (sv_world s)" and ?d' = "w_db (sv_world s')"
    have perm: "mset (held s) = mset (j # ?js)" using settle_job by (simp add: held_def)
    have h': "held s' = ?js" using settle_job by (simp add: held_def)
    from settle_jobs [of env j err "sv_world s"] show ?thesis
    proof
      assume "jobs (w_db (settle env j err (sv_world s))) = jobs ?d"
      then show ?thesis using inv(2) perm h' settle_job(1)
        by (intro owned_same_jobs [OF assms(1)]) simp_all
    next
      assume "\<exists>now. jobs (w_db (settle env j err (sv_world s))) = settled j err now ?d"
      then obtain now where d': "jobs ?d' = settled j err now ?d" using settle_job(1) by auto
      have "list_all (holds ?d) (j # ?js)" "distinct (map job_ID (j # ?js))"
        using assms(1) mset_eq_setD [OF perm] perm
          mset_eq_imp_distinct_iff [of "map job_ID (held s)" "map job_ID (j # ?js)"]
        by (auto simp: owned_ok_def list_all_iff simp del: list.map)
      from settled_owned [OF inv(1) this(1) _ this(2) d'] this(2) assms(1) inv(2) h'
      show ?thesis by (simp add: owned_ok_def)
    qed
  next
    case (reconcile cfg)
    have h: "held s' = held s" using reconcile(1) by (simp add: held_def)
    have t: "\<not> stuck (timestamptz (clock_at env (n_clock (sv_world s)) - StuckJobTimeout cfg)) r"
      if "j \<in> set (held s)" "job_lookup (w_db (sv_world s)) (job_ID j) = Some r" for j r
      using reconcile(2,3) that by (auto simp: timely_def)
    from resetStuckJobs_jobs [of env cfg "sv_world s"]
    consider "jobs (w_db (sv_world s')) = jobs (w_db (sv_world s))"
      | now where "jobs (w_db (sv_world s')) = jobs (update_jobs
          (stuck (timestamptz (clock_at env (n_clock (sv_world s)) - StuckJobTimeout cfg))) (reset_row now)
          (w_db (sv_world s)))"
      using reconcile(1) by auto
    then show ?thesis
    proof cases
      case 1
      then show ?thesis using inv(2) h by (intro owned_same_jobs [OF assms(1)]) simp_all
    next
      case 2
      have "list_all (holds (w_db (sv_world s'))) (held s)"
        "list_all attempts_ok (jobs (w_db (sv_world s')))"
        by (rule reset_owned [OF _ _ 2, of "held s"]; use assms(1) t in \<open>simp add: owned_ok_def\<close>)+
      with assms(1) inv(2) show ?thesis by (simp add: owned_ok_def h)
    qed
  next
    case crash
    then show ?thesis using inv(2) assms(1) by (simp add: owned_ok_def held_def initial_def)
  qed
qed

interpretation owned: service_invariant env p "timely env p"
  "\<lambda>w. db_inv (w_db w) \<and> list_all attempts_ok (jobs (w_db w))" owned_ok for env p
proof
  show "owned_ok s'" if "owned_ok s" "step env p (timely env p) s s'" for s s'
    using that by (rule step_owned_ok)
qed (simp add: owned_ok_def initial_def held_def)

end
