(* ===== verification/Job_Machine.thy ===== *)
theory Job_Machine
  imports Service
begin

text \<open>
  What the service promises about a job, as an abstract machine: a job is created pending, is
  claimed from pending or failed, and leaves running for completed, failed or dead, or back
  to pending. Every step of the service is a step of this machine on all jobs at once, as
  long as the reconciler is timely. Where it is not, a job can be held twice.
\<close>

section \<open>The machine\<close>

definition status_edge :: "JobStatus \<Rightarrow> JobStatus \<Rightarrow> bool" where
  "status_edge a b =
     ((a = JobPending \<or> a = JobFailed) \<and> b = JobRunning \<or>
      a = JobRunning \<and> (b = JobCompleted \<or> b = JobFailed \<or> b = JobDead \<or> b = JobPending))"

definition machine_step :: "(go_string \<rightharpoonup> JobStatus) \<Rightarrow> (go_string \<rightharpoonup> JobStatus) \<Rightarrow> bool" where
  "machine_step m m' =
     (\<forall>i. case m i of
        None \<Rightarrow> m' i = None \<or> m' i = Some JobPending
      | Some a \<Rightarrow> (\<exists>b. m' i = Some b \<and> (b = a \<or> status_edge a b)))"

definition statuses :: "service \<Rightarrow> go_string \<rightharpoonup> JobStatus" where
  "statuses s i = map_option job_Status (job_lookup (w_db (sv_world s)) i)"

section \<open>Each row takes an edge or stays\<close>

definition row_moves :: "db \<Rightarrow> db \<Rightarrow> bool" where
  "row_moves d d' =
     (\<forall>i r. job_lookup d i = Some r \<longrightarrow>
        (\<exists>r'. job_lookup d' i = Some r' \<and> (r' = r \<or> status_edge (job_Status r) (job_Status r'))))"

definition new_rows_pending :: "db \<Rightarrow> db \<Rightarrow> bool" where
  "new_rows_pending d d' =
     (\<forall>i r. job_lookup d i = None \<longrightarrow> job_lookup d' i = Some r \<longrightarrow> job_Status r = JobPending)"

lemma same_jobs_move: "jobs d' = jobs d \<Longrightarrow> row_moves d d' \<and> new_rows_pending d d'"
  using job_lookup_cong [of d' d] by (simp add: row_moves_def new_rows_pending_def)

lemma update_moves:
  assumes "jobs d' = jobs (update_jobs P f d)" "keeps_row f"
    and "\<And>i r. job_lookup d i = Some r \<Longrightarrow> P r \<Longrightarrow> status_edge (job_Status r) (job_Status (f r))"
  shows "row_moves d d' \<and> new_rows_pending d d'"
  using job_lookup_update [OF assms(2), of P d] job_lookup_cong [OF assms(1)] assms(3)
  by (auto simp: row_moves_def new_rows_pending_def)

lemma append_moves:
  assumes "jobs d' = jobs d @ map job_row js" "list_all (new_job e t m) js"
  shows "row_moves d d' \<and> new_rows_pending d d'"
proof -
  have "job_Status r = JobPending" if "r \<in> set (map job_row js)" for r
    using assms(2) that by (auto simp: list_all_iff new_job_def JobStatus_of_def)
  then show ?thesis
    using find_Some_set [of _ "map job_row js"]
    by (auto simp: row_moves_def new_rows_pending_def job_lookup_def assms(1) find_append)
qed

lemma claim_moves:
  assumes "db_inv (w_db w)"
  shows "row_moves (w_db w) (claimed_db env n w) \<and> new_rows_pending (w_db w) (claimed_db env n w)"
proof -
  let ?b = "batch_of env n w"
  have "status_edge (job_Status r) (job_Status (claim_row (clock_at env (n_clock w)) r))"
    if "job_lookup (w_db w) i = Some r" "job_ID r \<in> set (map job_ID ?b)" for i r
  proof -
    note hit = that
    obtain r' where r': "r' \<in> set ?b" "job_ID r' = job_ID r" using hit(2) by auto
    have "job_lookup (w_db w) (job_ID r) = Some r" using job_lookup_Some [OF hit(1)] hit(1) by simp
    with batch_rows(2,3) [OF assms r'(1)] r'(2) show ?thesis
      by (auto simp: status_edge_def due_def step_simps)
  qed
  then show ?thesis
    by (intro update_moves [of _ "\<lambda>r. job_ID r \<in> set (map job_ID ?b)"
          "claim_row (clock_at env (n_clock w))"]) (simp_all add: claimed_db_def sql_claim_def)
qed

lemma settle_moves:
  assumes "holds (w_db w) j"
  shows "row_moves (w_db w) (w_db (settle env j err w)) \<and>
    new_rows_pending (w_db w) (w_db (settle env j err w))"
  using settle_jobs [of env j err w]
proof
  assume "\<exists>now. jobs (w_db (settle env j err w)) = settled j err now (w_db w)"
  then obtain now where d': "jobs (w_db (settle env j err w)) =
      jobs (update_jobs (\<lambda>r. job_ID r = job_ID j) (outcome_row (decide j err) now) (w_db w))"
    by (auto simp: settled_def)
  have "status_edge (job_Status r) (job_Status (outcome_row (decide j err) now r))"
    if "job_lookup (w_db w) i = Some r" "job_ID r = job_ID j" for i r
    using assms that job_lookup_Some [OF that(1)]
    by (cases "decide j err") (auto simp: holds_def status_edge_def step_simps)
  then show ?thesis by (intro update_moves [OF d']) simp_all
qed (rule same_jobs_move)

lemma reset_moves:
  "row_moves (w_db w) (w_db (resetStuckJobs env cfg w)) \<and>
   new_rows_pending (w_db w) (w_db (resetStuckJobs env cfg w))"
proof -
  consider "jobs (w_db (resetStuckJobs env cfg w)) = jobs (w_db w)"
    | now where "jobs (w_db (resetStuckJobs env cfg w)) = jobs (update_jobs
        (stuck (timestamptz (clock_at env (n_clock w) - StuckJobTimeout cfg))) (reset_row now) (w_db w))"
    using resetStuckJobs_jobs [of env cfg w] by auto
  then show ?thesis
  proof cases
    case 1
    then show ?thesis by (rule same_jobs_move)
  next
    case 2
    then show ?thesis
      by (rule update_moves) (auto simp: status_edge_def stuck_def step_simps)
  qed
qed

lemma step_moves:
  assumes "owned_ok s" "step env p R s s'"
  shows "row_moves (w_db (sv_world s)) (w_db (sv_world s')) \<and>
    new_rows_pending (w_db (sv_world s)) (w_db (sv_world s'))"
  using assms(2)
proof (cases rule: step.cases)
  case (admit_reply rq r w)
  then show ?thesis by (intro same_jobs_move) (auto dest: admit_frame)
next
  case (admit_event rq a w)
  then show ?thesis by (intro same_jobs_move) (auto dest: admit_frame)
next
  case (commit_event xs ev t ys r w)
  obtain ev' where "delivery ev' t (wh_maxAttempts (pg_webhook p)) (w_db (sv_world s)) (w_db w)"
    using persist_and_enqueue_delivery [OF commit_event(3)] by blast
  then show ?thesis using commit_event(1) append_moves by (auto simp: delivery_def)
next
  case (poll_error e w)
  have "db_inv (w_db (sv_world s))" using assms(1) by (simp add: owned_ok_def)
  with Dequeue_db [of env "Concurrency (pg_processor p)" "sv_world s"] poll_error claim_moves
  show ?thesis by (auto simp: same_jobs_move)
next
  case (poll_batch js w)
  have "db_inv (w_db (sv_world s))" using assms(1) by (simp add: owned_ok_def)
  with Dequeue_db [of env "Concurrency (pg_processor p)" "sv_world s"] poll_batch claim_moves
  show ?thesis by (auto simp: same_jobs_move)
next
  case (execute_job xs j ys err w)
  then show ?thesis using Execute_sends_only [OF execute_job(3)]
    by (intro same_jobs_move) (auto simp: sends_only_def)
next
  case (settle_job xs j err ys)
  have "holds (w_db (sv_world s)) j" using assms(1) settle_job(2)
    by (auto simp: owned_ok_def held_def)
  from settle_moves [OF this] show ?thesis using settle_job(1) by simp
next
  case (reconcile cfg)
  then show ?thesis using reset_moves by simp
qed (auto simp: same_jobs_move initial_def)

lemma moves_machine_step:
  "row_moves (w_db (sv_world s)) (w_db (sv_world s')) \<Longrightarrow>
   new_rows_pending (w_db (sv_world s)) (w_db (sv_world s')) \<Longrightarrow>
   machine_step (statuses s) (statuses s')"
  by (fastforce simp: machine_step_def statuses_def row_moves_def new_rows_pending_def
      split: option.split)

lemma terminal_row_stays:
  "row_moves d d' \<Longrightarrow> job_lookup d i = Some r \<Longrightarrow> terminal r \<Longrightarrow> job_lookup d' i = Some r"
  unfolding row_moves_def terminal_def status_edge_def by fastforce

section \<open>A slow job\<close>

text \<open>An environment in which ten minutes pass between two readings of the clock.\<close>

definition slow_env :: env where
  "slow_env = sample_env\<lparr>clock_at := (\<lambda>n. int n * (10 * nanos_per_minute))\<rparr>"

definition five_minutes :: ReconcileConfig where
  "five_minutes = \<lparr>Interval = 15 * nanos_per_minute, StuckJobTimeout = 5 * nanos_per_minute\<rparr>"

lemma slow_simps [simp]: "clock_at slow_env n = int n * (10 * nanos_per_minute)"
  "fault_at slow_env n = NoFault" "locked_at slow_env n = []"
  by (simp_all add: slow_env_def)

lemma single_claim:
  assumes "no_faults env" "\<forall>k. locked_at env k = []" "jobs (w_db w) = [r]"
    and "due (clock_at env (n_clock w)) r"
  obtains w' where "Dequeue env 1 w = (Inr [job_of r], w')"
    "jobs (w_db w') = [claim_row (clock_at env (n_clock w)) r]" "n_clock w' = Suc (n_clock w)"
  using assms
  by (simp add: Dequeue_def db_call_def Now_def Let_def sql_select_due_def sql_claim_def
      update_jobs_def no_faults_def)

lemma single_reset:
  assumes "no_faults env" "jobs (w_db w) = [r]"
    and "stuck (timestamptz (clock_at env (n_clock w) - StuckJobTimeout cfg)) r"
  shows "jobs (w_db (resetStuckJobs env cfg w)) = [reset_row (clock_at env (Suc (n_clock w))) r]"
    "n_clock w + 2 \<le> n_clock (resetStuckJobs env cfg w)"
proof -
  let ?now = "clock_at env (Suc (n_clock w))"
  obtain w1 where 1: "ResetStuck env (StuckJobTimeout cfg) w = (Inr 1, w1)"
    "jobs (w_db w1) = [reset_row ?now r]" "n_clock w1 = n_clock w + 2"
    using assms by (simp add: ResetStuck_def wrap_err_def db_exec_def Now_def sql_reset_stuck_def
        no_faults_def update_jobs_def)
  moreover have "n_clock w1 \<le> n_clock (reconciler_writeAudit env x k dt w1)" for x k dt
    by (simp add: reconciler_writeAudit_def audit_Insert_def db_exec_def Now_def NewString_def
        Let_def split: fault.split sum.split)
  ultimately show "jobs (w_db (resetStuckJobs env cfg w)) = [reset_row ?now r]"
    "n_clock w + 2 \<le> n_clock (resetStuckJobs env cfg w)"
    by (auto simp: resetStuckJobs_def)
qed

section \<open>Properties\<close>

text \<open>
  C2. Refinement: while the reconciler is timely, every step of the service that starts from
  well-formed tables moves every job along an edge of the job machine or leaves its status,
  and a job appears only as pending.
\<close>

theorem service_refines_job_machine:
  assumes "reachable env p (timely env p) w s" "step env p (timely env p) s s'"
    and "db_inv (w_db w)" "list_all attempts_ok (jobs (w_db w))"
  shows "machine_step (statuses s) (statuses s')"
proof -
  have "owned_ok s" using owned.inv_reachable [OF assms(1)] assms(3,4) by simp
  from step_moves [OF this assms(2)] show ?thesis by (blast intro: moves_machine_step)
qed

text \<open>
  C4. A job that is completed or dead is finished: while the reconciler is timely, no later step
  of the service changes anything of its row.
\<close>

theorem finished_jobs_stay:
  assumes "reachable env p (timely env p) w s" "(step env p (timely env p))\<^sup>*\<^sup>* s s'"
    and "db_inv (w_db w)" "list_all attempts_ok (jobs (w_db w))"
    and "job_lookup (w_db (sv_world s)) i = Some r" "terminal r"
  shows "job_lookup (w_db (sv_world s')) i = Some r"
proof -
  have "owned_ok s" using owned.inv_reachable [OF assms(1)] assms(3,4) by simp
  from assms(2) this have "owned_ok s' \<and> job_lookup (w_db (sv_world s')) i = Some r"
  proof (induction rule: rtranclp_induct)
    case (step u v)
    then have u: "owned_ok u" "job_lookup (w_db (sv_world u)) i = Some r" by simp_all
    have "owned_ok v" using u(1) step(2) by (rule step_owned_ok)
    moreover have "job_lookup (w_db (sv_world v)) i = Some r"
      using step_moves [OF u(1) step(2)] u(2) assms(6) terminal_row_stays by blast
    ultimately show ?case ..
  qed (use assms(5) in simp)
  then show ?thesis ..
qed


definition default_program :: "unit program" where
  "default_program = wire () defaults"

lemma default_program_simps [simp]:
  "Concurrency (pg_processor default_program) = 1" "pg_reconciler default_program = Some five_minutes"
  by (simp_all add: default_program_def wire_def defaults_def five_minutes_def)

text \<open>
  C5. Without that condition it can: with the default settings and a clock by which a job runs
  for ten minutes, the reconciler puts a job back that is still being executed, and the
  process claims it a second time while it holds it.
\<close>

theorem late_reset_claims_twice:
  "\<exists>s. reachable slow_env default_program (\<lambda>_. True) one_job_world s \<and>
     map job_ID (held s) = [''j'', ''j''] \<and> in_flight s = 1"
proof -
  let ?p = default_program and ?w = one_job_world
  let ?st = "step slow_env ?p (\<lambda>_. True)"
  have nf: "no_faults slow_env" "\<forall>k. locked_at slow_env k = []" by (simp_all add: no_faults_def)
  obtain r where r: "jobs (w_db ?w) = [r]" "job_ID r = ''j''" "due 0 r" "n_clock ?w = 0"
    by (simp add: one_job_world_def due_def JobStatus_of_def)
  then have "due (clock_at slow_env (n_clock ?w)) r" by simp
  from single_claim [OF nf r(1) this] r(4) obtain w1 where w1: "Dequeue slow_env 1 ?w = (Inr [job_of r], w1)"
    "jobs (w_db w1) = [claim_row 0 r]" "n_clock w1 = 1" by auto
  let ?s0 = "initial ?w" and ?s1 = "(initial ?w)\<lparr>sv_world := w1, sv_batch := [job_of r]\<rparr>"
  have "?st ?s0 ?s1" using poll_batch [of ?s0 slow_env ?p] w1(1) by (simp add: initial_def)
  then have 1: "reachable slow_env ?p (\<lambda>_. True) ?w ?s1" by (rule next_step [OF start])
  let ?s2 = "?s1\<lparr>sv_batch := [], sv_executing := [job_of r]\<rparr>"
  have "?st ?s1 ?s2"
    using start_job [of ?s1 "job_of r" "[]" ?p slow_env "\<lambda>_. True"] by (simp add: initial_def in_flight_def)
  then have 2: "reachable slow_env ?p (\<lambda>_. True) ?w ?s2" by (rule next_step [OF 1])
  let ?w3 = "resetStuckJobs slow_env five_minutes w1"
  let ?s3 = "?s2\<lparr>sv_world := ?w3\<rparr>"
  have "?st ?s2 ?s3" using reconcile [of ?p five_minutes "\<lambda>_. True" ?s2 slow_env] by simp
  then have 3: "reachable slow_env ?p (\<lambda>_. True) ?w ?s3" by (rule next_step [OF 2])
  have "stuck (timestamptz (clock_at slow_env (n_clock w1) - StuckJobTimeout five_minutes)) (claim_row 0 r)"
    by (simp add: w1(3) five_minutes_def stuck_def claim_row_def duration_defs timestamptz_def)
  note reset = single_reset [OF nf(1) w1(2) this]
  let ?r3 = "reset_row (clock_at slow_env 2) (claim_row 0 r)"
  have j3: "jobs (w_db ?w3) = [?r3]" using reset(1) by (simp add: w1(3) numeral_2_eq_2)
  have "3 \<le> n_clock ?w3" using reset(2) by (simp add: w1(3))
  then have "due (clock_at slow_env (n_clock ?w3)) ?r3"
    by (simp add: due_def reset_row_def duration_defs)
  from single_claim [OF nf j3 this] obtain w4 where w4: "Dequeue slow_env 1 ?w3 = (Inr [job_of ?r3], w4)"
    by blast
  let ?s4 = "?s3\<lparr>sv_world := w4, sv_batch := [job_of ?r3]\<rparr>"
  have "sv_batch ?s3 = []" "Dequeue slow_env (Concurrency (pg_processor ?p)) (sv_world ?s3) =
      (Inr [job_of ?r3], w4)"
    using w4 by simp_all
  from poll_batch [OF this] have "?st ?s3 ?s4" .
  then have "reachable slow_env ?p (\<lambda>_. True) ?w ?s4" by (rule next_step [OF 3])
  moreover have "map job_ID (held ?s4) = [''j'', ''j'']" "in_flight ?s4 = 1"
    using r(2) by (simp_all add: held_def in_flight_def initial_def step_simps)
  ultimately show ?thesis by (intro exI [where x = ?s4] conjI)
qed

text \<open>The first poll of the sample world, for the examples.\<close>

lemma one_job_attempts [simp]: "list_all attempts_ok (jobs (w_db one_job_world))"
  by (simp add: one_job_world_def attempts_ok_def)

lemma first_poll:
  obtains w1 r where
    "step slow_env default_program R (initial one_job_world)
       ((initial one_job_world)\<lparr>sv_world := w1, sv_batch := [job_of r]\<rparr>)"
    "job_lookup (w_db w1) ''j'' = Some (claim_row 0 r)" "job_ID r = ''j''"
proof -
  obtain r where r: "jobs (w_db one_job_world) = [r]" "job_ID r = ''j''" "due 0 r"
    "n_clock one_job_world = 0"
    by (simp add: one_job_world_def due_def JobStatus_of_def)
  have "no_faults slow_env" "\<forall>k. locked_at slow_env k = []" "due (clock_at slow_env (n_clock one_job_world)) r"
    using r by (simp_all add: no_faults_def)
  from single_claim [OF this(1,2) r(1) this(3)] r(4) obtain w1 where
    w1: "Dequeue slow_env 1 one_job_world = (Inr [job_of r], w1)" "jobs (w_db w1) = [claim_row 0 r]"
    by auto
  have "sv_batch (initial one_job_world) = []" "Dequeue slow_env (Concurrency (pg_processor
      default_program)) (sv_world (initial one_job_world)) = (Inr [job_of r], w1)"
    using w1(1) by (simp_all add: initial_def)
  from poll_batch [OF this] w1(2) r(2) show thesis
    by (intro that [of r w1]) (simp_all add: job_lookup_def step_simps)
qed

theorem service_refines_job_machine_witness:
  "\<exists>s'. step slow_env default_program (timely slow_env default_program) (initial one_job_world) s' \<and>
     machine_step (statuses (initial one_job_world)) (statuses s') \<and> statuses s' ''j'' = Some JobRunning"
proof -
  obtain w1 r where 1: "step slow_env default_program (timely slow_env default_program)
      (initial one_job_world) ((initial one_job_world)\<lparr>sv_world := w1, sv_batch := [job_of r]\<rparr>)"
    "job_lookup (w_db w1) ''j'' = Some (claim_row 0 r)" using first_poll .
  from service_refines_job_machine [OF start 1(1) one_job_world_inv one_job_attempts] 1 show ?thesis
    by (intro exI conjI) (assumption, assumption, simp add: statuses_def claim_row_def)
qed


definition finished_world :: world where
  "finished_world = one_job_world\<lparr>w_db := sql_mark_completed ''j'' 7 (w_db one_job_world)\<rparr>"

theorem finished_jobs_stay_witness:
  "\<exists>s r. step sample_env default_program (timely sample_env default_program) (initial finished_world) s \<and>
     job_lookup (w_db (sv_world s)) ''j'' = Some r \<and> job_Status r = JobCompleted"
proof -
  let ?s = "initial (sv_world (initial finished_world)\<lparr>w_patterns := Map.empty\<rparr>)"
  have st: "step sample_env default_program (timely sample_env default_program) (initial finished_world) ?s"
    by (rule crash)
  obtain r where r: "job_lookup (w_db finished_world) ''j'' = Some r" "terminal r" "job_Status r = JobCompleted"
    by (simp add: finished_world_def one_job_world_def sql_mark_completed_def update_jobs_def
        job_lookup_def terminal_def complete_row_def)
  have "db_inv (w_db finished_world)"
    using db_inv_updates(1) [OF one_job_world_inv] by (simp add: finished_world_def)
  moreover have "list_all attempts_ok (jobs (w_db finished_world))"
    by (simp add: finished_world_def one_job_world_def sql_mark_completed_def update_jobs_def
        attempts_ok_def complete_row_def)
  moreover have "job_lookup (w_db (sv_world (initial finished_world))) ''j'' = Some r"
    using r(1) by (simp add: initial_def)
  ultimately have "job_lookup (w_db (sv_world ?s)) ''j'' = Some r"
    using finished_jobs_stay [OF start _ _ _ _ r(2)]
      r_into_rtranclp [of "step sample_env default_program (timely sample_env default_program)", OF st]
    by blast
  with st r(3) show ?thesis by blast
qed

end
