(* ===== verification/Payload_Types.thy ===== *)
theory Payload_Types
  imports Webhook_Parser Issue_Key Tables
begin

text \<open>
  The types of a parsed event. Whatever bytes a payload holds, the decoder leaves only valid
  UTF-8 in the strings it stores (escapes are decoded, surrogates and invalid bytes replaced)
  and only 64-bit integers in the numbers, and the parser hands them on; when the payload is a
  JSONB value, no string holds a NUL either. Both are one argument, made once in the locale
  \<open>text_type\<close> for any condition on strings that concatenation and ASCII text keep.
\<close>

section \<open>Strings of a document are UTF-8\<close>

lemma utf8_ok_concat: "utf8_ok s \<Longrightarrow> utf8_ok t \<Longrightarrow> utf8_ok (s @ t)"
  by (simp add: utf8_ok_append)

lemma char_code_byte_mod [simp]: "char_code (byte n) = n mod 256"
  by (simp add: byte_def)

lemma utf8_ok_ascii_byte: "n < 128 \<Longrightarrow> utf8_ok [byte n]"
  by (intro utf8_ok_ascii) simp

lemma utf8_ok_single: "rune_len s = length s \<Longrightarrow> utf8_ok s"
  by (cases s) simp_all

lemma mod_64_le [simp]: "n mod 64 \<le> (63 :: nat)"
  using mod_less_divisor [of 64 n] by linarith

lemma mod_small: "64 * k \<le> n \<Longrightarrow> n mod 64 = n - 64 * (k :: nat) \<or> 64 * (k + 1) \<le> n"
proof -
  assume "64 * k \<le> n"
  then obtain m where "n = m + 64 * k" by (metis add.commute le_Suc_ex)
  then show ?thesis by (cases "m < 64") simp_all
qed

lemma utf8_ok_encode_rune:
  assumes "r < 55296 \<or> 57344 \<le> r \<and> r < 1114112"
  shows "utf8_ok (encode_rune r)"
proof (rule utf8_ok_single)
  consider "r < 128" | "128 \<le> r" "r < 2048" | "2048 \<le> r" "r < 4096" | "4096 \<le> r" "r < 53248"
    | "53248 \<le> r" "r < 55296" | "57344 \<le> r" "r < 65536" | "65536 \<le> r" "r < 262144"
    | "262144 \<le> r" "r < 1048576" | "1048576 \<le> r" "r < 1114112"
    using assms by linarith
  then show "rune_len (encode_rune r) = length (encode_rune r)"
  proof cases
    case 1
    then show ?thesis by (simp add: encode_rune_def rune_len_def)
  next
    case 2
    have "2 \<le> r div 64" "r div 64 < 32" using 2 by auto
    then show ?thesis using 2 by (simp add: encode_rune_def rune_len_def is_cont_in_def Let_def)
  next
    case 3
    have "r div 64 mod 64 = r div 64" "32 \<le> r div 64" "r div 64 \<le> 63" "r mod 64 \<le> 63" using 3 by auto
    then show ?thesis using 3 by (simp add: encode_rune_def rune_len_def is_cont_in_def Let_def)
  next
    case 4
    have "1 \<le> r div 4096" "r div 4096 < 13" using 4 by auto
    then show ?thesis using 4 by (simp add: encode_rune_def rune_len_def is_cont_in_def Let_def)
  next
    case 5
    have "r div 4096 = 13" using 5 by (intro div_nat_eqI) simp_all
    moreover have "r div 64 mod 64 < 32"
      using mod_small [of 13 "r div 64"] div_le_mono [OF 5(1), of 64] 5(2) by auto
    ultimately show ?thesis using 5 by (simp add: encode_rune_def rune_len_def is_cont_in_def Let_def)
  next
    case 6
    have "14 \<le> r div 4096" "r div 4096 < 16" using 6 by auto
    then have "r div 4096 = 14 \<or> r div 4096 = 15" by linarith
    then show ?thesis using 6 by (simp add: encode_rune_def rune_len_def is_cont_in_def Let_def)
  next
    case 7
    have "r div 262144 = 0" "16 \<le> r div 4096 mod 64" using 7 by auto
    then show ?thesis using 7 by (simp add: encode_rune_def rune_len_def is_cont_in_def Let_def numeral_2_eq_2 numeral_3_eq_3)
  next
    case 8
    have "1 \<le> r div 262144" "r div 262144 < 4" using 8 by auto
    then show ?thesis using 8 by (simp add: encode_rune_def rune_len_def is_cont_in_def Let_def numeral_2_eq_2 numeral_3_eq_3)
  next
    case 9
    have "r div 262144 = 4" using 9 by (intro div_nat_eqI) simp_all
    moreover have "r div 4096 mod 64 < 16"
      using mod_small [of 4 "r div 4096"] div_le_mono [OF 9(1), of 4096] 9(2) by auto
    ultimately show ?thesis using 9 by (simp add: encode_rune_def rune_len_def is_cont_in_def Let_def numeral_2_eq_2 numeral_3_eq_3)
  qed
qed

lemma hex_value_less: "hex_value c = Some n \<Longrightarrow> n < 16"
  by (auto simp: hex_value_def is_digit_def Let_def split: if_splits)

lemma hex4_less: "hex4 s = Some u \<Longrightarrow> u < 65536"
  by (induction s rule: hex4.induct)
    (fastforce simp: bind_eq_Some_conv dest!: hex_value_less)+

lemma utf8_ok_replacement: "utf8_ok replacement"
  by code_simp

lemma utf8_ok_unescape:
  assumes "unescape s = Some (x, n)"
  shows "utf8_ok x"
proof -
  have "utf8_ok (encode_rune u)" if "u < 65536" "\<not> (55296 \<le> u \<and> u < 57344)" for u
    using that by (intro utf8_ok_encode_rune) auto
  moreover have "utf8_ok (encode_rune ((u - 55296) * 1024 + (v - 56320) + 65536))"
    if "55296 \<le> u" "u < 56320" "56320 \<le> v" "v < 57344" for u v
    using that by (intro utf8_ok_encode_rune) auto
  moreover have "utf8_ok [e]" if "e = CHR 0x22 \<or> e = CHR 0x5C \<or> e = CHR ''/''" for e :: char
    using that by (intro utf8_ok_ascii) auto
  ultimately show ?thesis
    using assms utf8_ok_replacement
    by (auto simp: unescape_def utf8_ok_ascii_byte dest: hex4_less
        split: list.splits if_splits option.splits)
qed

lemma utf8_ok_p_str: "p_str s = Some (y, r) \<Longrightarrow> utf8_ok y"
proof (induction s arbitrary: y r rule: p_str.induct)
  case (2 c s)
  have lead: "utf8_ok (take (rune_len (c # s)) (c # s))" if "rune_len (c # s) \<noteq> 0"
    using that by (cases "rune_len (c # s)") (simp_all add: utf8_ok_rune del: utf8_ok.simps)
  consider "c = CHR 0x22" | "c \<noteq> CHR 0x22" "c = CHR 0x5C"
    | "c \<noteq> CHR 0x22" "c \<noteq> CHR 0x5C" "rune_len (c # s) = 0"
    | "c \<noteq> CHR 0x22" "c \<noteq> CHR 0x5C" "rune_len (c # s) \<noteq> 0" by blast
  then show ?case
  proof cases
    case 2
    then show ?thesis using "2.prems" "2.IH"(1)
      by (auto split: option.splits prod.splits intro: utf8_ok_concat dest: utf8_ok_unescape)
  next
    case 3
    then show ?thesis using "2.prems" "2.IH"(2)
      by (auto split: if_splits intro: utf8_ok_concat [OF utf8_ok_replacement])
  next
    case 4
    then show ?thesis using "2.prems" "2.IH"(3)
      by (auto split: if_splits intro: utf8_ok_concat [OF lead])
  qed (use 2 in simp)
qed simp


text \<open>All strings of a document, member names included.\<close>

fun strings_are :: "(go_string \<Rightarrow> bool) \<Rightarrow> json \<Rightarrow> bool" where
  "strings_are T (JStr s) = T s"
| "strings_are T (JArr vs) = list_all (strings_are T) vs"
| "strings_are T (JObj ms) = list_all (\<lambda>(k, v). T k \<and> strings_are T v) ms"
| "strings_are T _ = True"

lemma p_value_utf8:
  "p_value f d s = Some (v, r) \<Longrightarrow> strings_are utf8_ok v"
  "p_members f d s = Some (ms, r) \<Longrightarrow> strings_are utf8_ok (JObj ms)"
  "p_elems f d s = Some (vs, r) \<Longrightarrow> strings_are utf8_ok (JArr vs)"
proof (induction f d s and f d s and f d s arbitrary: v r and ms r and vs r
    rule: p_value_p_members_p_elems.induct)
  case (2 f d s)
  then show ?case
    by (auto simp: Let_def utf8_ok_p_str split: if_splits option.splits)
next
  case (4 f d s)
  from 4(3) obtain r1 k r2 r3 x r4 where
    k: "expect (CHR 0x22) s = Some r1" "p_str r1 = Some (k, r2)" "expect CHR '':'' r2 = Some r3"
    and x: "p_value f d r3 = Some (x, r4)"
    and m: "(case expect CHR '','' r4 of
          Some r5 \<Rightarrow> map_option (\<lambda>(ms, t). ((k, x) # ms, t)) (p_members f d r5)
        | None \<Rightarrow> map_option (\<lambda>t. ([(k, x)], t)) (expect CHR ''}'' r4)) = Some (ms, r)"
    by (auto simp: bind_eq_Some_conv)
  from 4(1) [OF k(1,2) refl k(3) x] have "strings_are utf8_ok x" .
  with m 4(2) [OF k(1,2) refl k(3) x refl] utf8_ok_p_str [OF k(2)] show ?case
    by (auto split: option.splits)
next
  case (6 f d s)
  from 6(3) obtain x r4 where x: "p_value f d s = Some (x, r4)"
    and m: "(case expect CHR '','' r4 of
          Some r5 \<Rightarrow> map_option (\<lambda>(vs, t). (x # vs, t)) (p_elems f d r5)
        | None \<Rightarrow> map_option (\<lambda>t. ([x], t)) (expect CHR '']'' r4)) = Some (vs, r)"
    by (auto simp: bind_eq_Some_conv)
  from 6(1) [OF x] have "strings_are utf8_ok x" .
  with m 6(2) [OF x refl] show ?case
    by (auto split: option.splits)
qed simp_all

section \<open>Strings of a JSONB document hold no NUL\<close>

lemma nul_iff: "c = CHR 0x00 \<longleftrightarrow> char_code c = 0"
  by (metis byte_0 byte_char_code char_code_byte_mod mod_0)

lemma nul_byte [simp]: "CHR 0x00 = byte n \<longleftrightarrow> n mod 256 = 0"
  by (metis char_code_byte_mod nul_iff)

lemma jsonb_escapes_Cons [simp]: "c \<noteq> CHR 0x5C \<Longrightarrow> jsonb_escapes (c # s) = jsonb_escapes s"
  by simp

declare jsonb_escapes.simps(2) [simp del]

lemma jsonb_escapes_append:
  "CHR 0x5C \<notin> set u \<Longrightarrow> jsonb_escapes (u @ s) = jsonb_escapes s"
  by (induction u) auto

lemma encode_rune_no_nul: "0 < r \<Longrightarrow> r < 1114112 \<Longrightarrow> CHR 0x00 \<notin> set (encode_rune r)"
  by (auto simp: encode_rune_def)

lemma replacement_no_nul: "CHR 0x00 \<notin> set replacement"
  by code_simp

lemma unescape_jsonb:
  assumes "unescape s = Some (x, n)" "jsonb_escapes (CHR 0x5C # s)"
  shows "CHR 0x00 \<notin> set x \<and> jsonb_escapes (drop n s)"
proof -
  obtain e t where s: "s = e # t" using assms(1) by (auto simp: unescape_def split: list.splits)
  show ?thesis
  proof (cases "e = CHR ''u''")
    case False
    then have "n = 1" "CHR 0x00 \<notin> set x"
      using assms(1) by (auto simp: s unescape_def split: if_splits)
    then show ?thesis using assms(2) False by (simp add: s jsonb_escapes.simps(2) starts_def)
  next
    case True
    then obtain u where u: "hex4 t = Some u" using assms by (auto simp: s unescape_def split: option.splits)
    then have pos: "u \<noteq> 0" "\<not> (56320 \<le> u \<and> u < 57344)"
      using assms(2) True by (auto simp: s jsonb_escapes.simps(2) starts_def split: if_splits)
    show ?thesis
    proof (cases "55296 \<le> u \<and> u < 57344")
      case True
      then obtain v where "getu4 (drop 4 t) = Some v" "56320 \<le> v" "v < 57344" "jsonb_escapes (drop 11 s)"
        using assms(2) u pos \<open>e = CHR ''u''\<close>
        by (auto simp: s jsonb_escapes.simps(2) starts_def split: option.splits)
      then show ?thesis
        using assms(1) u pos True \<open>e = CHR ''u''\<close> by (auto simp: s unescape_def encode_rune_no_nul)
    next
      case False
      then show ?thesis
        using assms u pos \<open>e = CHR ''u''\<close> hex4_less [OF u]
        by (auto simp: s unescape_def jsonb_escapes.simps(2) starts_def encode_rune_no_nul)
    qed
  qed
qed

lemma lead_plain:
  assumes "c \<noteq> CHR 0x5C" "32 \<le> char_code c" "x \<in> set (take (rune_len (c # s)) (c # s))"
  shows "x \<noteq> CHR 0x5C \<and> x \<noteq> CHR 0x00"
proof (cases "char_code c < 128")
  case True
  then have "rune_len (c # s) = 1" by (simp add: rune_len_def)
  then show ?thesis using assms by (auto simp: nul_iff)
next
  case False
  obtain i where "i < rune_len (c # s)" "x = (c # s) ! i"
    using assms(3) by (metis in_set_conv_nth length_take min_less_iff_conj nth_take)
  then have "128 \<le> char_code x" using rune_bytes [of "c # s", OF _ refl] False by simp
  then show ?thesis by auto
qed

lemma p_str_jsonb:
  "p_str s = Some (y, r) \<Longrightarrow> jsonb_escapes s \<Longrightarrow> CHR 0x00 \<notin> set y \<and> jsonb_escapes r"
proof (induction s arbitrary: y r rule: p_str.induct)
  case (2 c s)
  consider "c = CHR 0x22" | "c \<noteq> CHR 0x22" "c = CHR 0x5C"
    | "c \<noteq> CHR 0x22" "c \<noteq> CHR 0x5C" "rune_len (c # s) = 0"
    | "c \<noteq> CHR 0x22" "c \<noteq> CHR 0x5C" "rune_len (c # s) \<noteq> 0" by blast
  then show ?case
  proof cases
    case 2
    then obtain x n z where x: "unescape s = Some (x, n)" "p_str (drop n s) = Some (z, r)" "y = x @ z"
      using "2.prems"(1) by (auto split: option.splits prod.splits)
    from "2.IH"(1) [OF 2(1,2) x(1) refl x(2)] unescape_jsonb [OF x(1)] "2.prems"(2) 2(2) x(3)
    show ?thesis by auto
  next
    case 3
    then show ?thesis using "2.prems" "2.IH"(2) replacement_no_nul by (auto split: if_splits)
  next
    case 4
    let ?n = "rune_len (c # s)"
    from 4 "2.prems"(1) obtain z where z: "\<not> char_code c < 32" "p_str (drop (?n - 1) s) = Some (z, r)"
      "y = take ?n (c # s) @ z" by (auto split: if_splits)
    have plain: "x \<noteq> CHR 0x5C \<and> x \<noteq> CHR 0x00" if "x \<in> set (take ?n (c # s))" for x
      using lead_plain [OF 4(2) _ that] z(1) by simp
    have "c # s = take ?n (c # s) @ drop (?n - 1) s"
      using 4(3) by (metis append_take_drop_id drop_Cons' )
    then have "jsonb_escapes (drop (?n - 1) s)"
      using "2.prems"(2) plain jsonb_escapes_append [of "take ?n (c # s)" "drop (?n - 1) s"] by metis
    from "2.IH"(3) [OF 4(1,2) z(1) 4(3) z(2) this] plain z(3) show ?thesis by auto
  qed (use 2 in simp)
qed simp


lemma skip_ws_jsonb [simp]: "jsonb_escapes (skip_ws s) = jsonb_escapes s"
proof -
  have "CHR 0x5C \<notin> set (takeWhile is_space s)"
    by (auto simp: is_space_def dest: set_takeWhileD)
  from jsonb_escapes_append [OF this, of "dropWhile is_space s"] show ?thesis by (simp add: skip_ws_def)
qed

lemma starts_jsonb: "starts c s \<Longrightarrow> c \<noteq> CHR 0x5C \<Longrightarrow> jsonb_escapes (tl s) = jsonb_escapes s"
  by (cases s) (auto simp: starts_def)

lemma expect_jsonb: "expect c s = Some r \<Longrightarrow> c \<noteq> CHR 0x5C \<Longrightarrow> jsonb_escapes r = jsonb_escapes s"
  by (auto simp: expect_def Let_def starts_jsonb split: if_splits)

lemma prefix_jsonb:
  "HasPrefix s p \<Longrightarrow> CHR 0x5C \<notin> set p \<Longrightarrow> jsonb_escapes (drop (length p) s) = jsonb_escapes s"
  using jsonb_escapes_append [of p "drop (length p) s"]
  by (metis HasPrefix_def append_take_drop_id)

lemma p_frac_split: "p_frac s = Some (x, r) \<Longrightarrow> s = x @ r"
  by (cases s) (auto simp: p_frac_def starts_def Let_def split: if_splits)

lemma p_exp_split: "p_exp s = Some (x, r) \<Longrightarrow> s = x @ r"
  by (cases s; cases "tl s") (auto simp: p_exp_def starts_def Let_def split: if_splits)

lemma p_num_split:
  assumes "p_num s = Some (x, r)"
  shows "s = x @ r"
proof -
  define sg where "sg = (if starts CHR ''-'' s then ''-'' else [])"
  define s1 where "s1 = drop (length sg) s"
  define ip where "ip = (if starts CHR ''0'' (takeWhile is_digit s1) then ''0'' else takeWhile is_digit s1)"
  have s: "s = sg @ s1" by (cases s) (simp_all add: sg_def s1_def starts_def)
  have s1: "s1 = ip @ drop (length ip) s1"
  proof (cases "starts CHR ''0'' (takeWhile is_digit s1)")
    case True
    then show ?thesis by (cases s1) (auto simp: ip_def starts_def split: if_splits)
  next
    case False
    then show ?thesis by (simp add: ip_def) (metis dropWhile_eq_drop takeWhile_dropWhile_id)
  qed
  obtain fr s3 ex where rest: "p_frac (drop (length ip) s1) = Some (fr, s3)" "p_exp s3 = Some (ex, r)"
    "x = sg @ ip @ fr @ ex"
    using assms unfolding p_num_def Let_def sg_def [symmetric] s1_def [symmetric] ip_def [symmetric]
    by (auto split: if_splits bind_splits)
  have "s = sg @ ip @ fr @ ex @ r"
    using s s1 p_frac_split [OF rest(1)] p_exp_split [OF rest(2)] by simp
  with rest(3) show ?thesis by simp
qed

lemma p_num_jsonb:
  assumes "p_num s = Some (x, r)"
  shows "jsonb_escapes r = jsonb_escapes s"
proof -
  have "CHR 0x5C \<notin> set x"
  proof
    assume "CHR 0x5C \<in> set x"
    with p_num_bytes(2) [OF assms] have "is_digit CHR 0x5C" by fastforce
    then show False by (simp add: is_digit_def)
  qed
  from jsonb_escapes_append [OF this] show ?thesis unfolding p_num_split [OF assms] by simp
qed

lemma p_value_jsonb:
  "p_value f d s = Some (v, r) \<Longrightarrow> jsonb_escapes s \<Longrightarrow> no_nul v \<and> jsonb_escapes r"
  "p_members f d s = Some (ms, r) \<Longrightarrow> jsonb_escapes s \<Longrightarrow> no_nul (JObj ms) \<and> jsonb_escapes r"
  "p_elems f d s = Some (vs, r) \<Longrightarrow> jsonb_escapes s \<Longrightarrow> no_nul (JArr vs) \<and> jsonb_escapes r"
proof (induction f d s and f d s and f d s arbitrary: v r and ms r and vs r
    rule: p_value_p_members_p_elems.induct)
  case (2 f d s)
  let ?r = "skip_ws s"
  have j: "jsonb_escapes ?r" using 2(4) by simp
  consider (obj) "starts CHR ''{'' ?r" | (arr) "\<not> starts CHR ''{'' ?r" "starts CHR ''['' ?r"
    | (other) "\<not> starts CHR ''{'' ?r" "\<not> starts CHR ''['' ?r" by blast
  then show ?case
  proof cases
    case obj
    then have "jsonb_escapes (tl ?r)" using j by (simp add: starts_jsonb)
    with obj 2(1) [OF refl obj] 2(3) show ?thesis
      by (auto simp: Let_def expect_jsonb split: if_splits option.splits)
  next
    case arr
    then have "jsonb_escapes (tl ?r)" using j by (simp add: starts_jsonb)
    with arr 2(2) [OF refl arr] 2(3) show ?thesis
      by (auto simp: Let_def expect_jsonb split: if_splits option.splits)
  next
    case other
    have lits: "HasPrefix ?r ''null'' \<Longrightarrow> jsonb_escapes (drop 4 ?r)"
      "HasPrefix ?r ''true'' \<Longrightarrow> jsonb_escapes (drop 4 ?r)"
      "HasPrefix ?r ''false'' \<Longrightarrow> jsonb_escapes (drop 5 ?r)"
      using j prefix_jsonb [of ?r "''null''"] prefix_jsonb [of ?r "''true''"] prefix_jsonb [of ?r "''false''"]
      by (simp_all add: eval_nat_numeral)
    have str: "starts (CHR 0x22) ?r \<Longrightarrow> jsonb_escapes (tl ?r)" using j by (simp add: starts_jsonb)
    from other 2(3) show ?thesis
      using j lits str by (auto simp: Let_def dest: p_str_jsonb p_num_jsonb split: if_splits)
  qed
next
  case (4 f d s)
  from 4(3) obtain r1 k r2 r3 x r4 where
    k: "expect (CHR 0x22) s = Some r1" "p_str r1 = Some (k, r2)" "expect CHR '':'' r2 = Some r3"
    and x: "p_value f d r3 = Some (x, r4)"
    and m: "(case expect CHR '','' r4 of
          Some r5 \<Rightarrow> map_option (\<lambda>(ms, t). ((k, x) # ms, t)) (p_members f d r5)
        | None \<Rightarrow> map_option (\<lambda>t. ([(k, x)], t)) (expect CHR ''}'' r4)) = Some (ms, r)"
    by (auto simp: bind_eq_Some_conv)
  have "jsonb_escapes r1" using expect_jsonb [OF k(1)] 4(4) by simp
  with p_str_jsonb [OF k(2)] expect_jsonb [OF k(3)]
  have key: "CHR 0x00 \<notin> set k" "jsonb_escapes r3" by simp_all
  with 4(1) [OF k(1,2) refl k(3) x] have "no_nul x" "jsonb_escapes r4" by simp_all
  with m 4(2) [OF k(1,2) refl k(3) x refl] key show ?case
    by (auto split: option.splits simp: expect_jsonb)
next
  case (6 f d s)
  from 6(3) obtain x r4 where x: "p_value f d s = Some (x, r4)"
    and m: "(case expect CHR '','' r4 of
          Some r5 \<Rightarrow> map_option (\<lambda>(vs, t). (x # vs, t)) (p_elems f d r5)
        | None \<Rightarrow> map_option (\<lambda>t. ([x], t)) (expect CHR '']'' r4)) = Some (vs, r)"
    by (auto simp: bind_eq_Some_conv)
  from 6(1) [OF x 6(4)] have "no_nul x" "jsonb_escapes r4" by simp_all
  with m 6(2) [OF x refl] show ?case
    by (auto split: option.splits simp: expect_jsonb)
qed simp_all

lemma strings_are_text: "strings_are utf8_ok v \<Longrightarrow> no_nul v \<Longrightarrow> strings_are text_ok v"
  by (induction v rule: no_nul.induct) (auto simp: text_ok_def list_all_iff, fastforce)

lemma json_parse_strings:
  assumes "json_parse s = Some v"
  shows "strings_are utf8_ok v" "jsonb_ok s \<Longrightarrow> strings_are text_ok v"
proof -
  obtain r where p: "p_value (2 * length s + 2) max_nesting_depth s = Some (v, r)"
    using assms by (auto simp: json_parse_def simp del: p_value.simps split: option.splits if_splits)
  show "strings_are utf8_ok v" by (rule p_value_utf8(1) [OF p])
  then show "jsonb_ok s \<Longrightarrow> strings_are text_ok v"
    using p_value_jsonb(1) [OF p] strings_are_text by (simp add: jsonb_ok_def)
qed

section \<open>Decoding keeps the type of a record\<close>

text \<open>A condition on records that every field keeps holds of the decoded record.\<close>

definition keeps :: "(go_string \<Rightarrow> bool) \<Rightarrow> ('r \<Rightarrow> bool) \<Rightarrow> ('r \<Rightarrow> go_string \<Rightarrow> json \<Rightarrow> 'r option) \<Rightarrow> bool" where
  "keeps T P field = (\<forall>r k v r'. P r \<longrightarrow> strings_are T v \<longrightarrow> field r k v = Some r' \<longrightarrow> P r')"

definition keeps_elem :: "(go_string \<Rightarrow> bool) \<Rightarrow> ('r \<Rightarrow> bool) \<Rightarrow> (json \<Rightarrow> 'r \<Rightarrow> 'r option) \<Rightarrow> bool" where
  "keeps_elem T P elem = (\<forall>r v r'. P r \<longrightarrow> strings_are T v \<longrightarrow> elem v r = Some r' \<longrightarrow> P r')"

lemma keepsD: "keeps T P field \<Longrightarrow> field r k v = Some r' \<Longrightarrow> P r \<Longrightarrow> strings_are T v \<Longrightarrow> P r'"
  by (auto simp: keeps_def)

lemma keeps_elemD: "keeps_elem T P elem \<Longrightarrow> elem v r = Some r' \<Longrightarrow> P r \<Longrightarrow> strings_are T v \<Longrightarrow> P r'"
  by (auto simp: keeps_elem_def)

lemma dec_members_keeps:
  "keeps T P field \<Longrightarrow> dec_members field r ms = Some r' \<Longrightarrow> P r \<Longrightarrow> strings_are T (JObj ms) \<Longrightarrow> P r'"
  by (induction field r ms rule: dec_members.induct)
    (auto split: option.splits dest: keepsD)

lemma keeps_struct: "keeps T P field \<Longrightarrow> keeps_elem T P (dec_struct field)"
  unfolding keeps_elem_def
proof (intro allI impI)
  fix r v r'
  assume "keeps T P field" "P r" "strings_are T v" "dec_struct field v r = Some r'"
  then show "P r'" by (cases v) (auto dest: dec_members_keeps)
qed

lemma list_all_tl: "list_all P xs \<Longrightarrow> list_all P (tl xs)"
  by (cases xs) simp_all

lemma list_all_hd: "list_all P xs \<Longrightarrow> xs \<noteq> [] \<Longrightarrow> P (hd xs)"
  by (cases xs) simp_all

lemma dec_elems_keeps:
  "keeps_elem T P elem \<Longrightarrow> P zero \<Longrightarrow> dec_elems elem zero vs cur = Some xs \<Longrightarrow> list_all P cur \<Longrightarrow>
    strings_are T (JArr vs) \<Longrightarrow> list_all P xs"
  by (induction elem zero vs cur arbitrary: xs rule: dec_elems.induct)
    (auto split: option.splits if_splits dest: keeps_elemD simp: list_all_tl list_all_hd)

lemma keeps_slice: "keeps_elem T P elem \<Longrightarrow> P zero \<Longrightarrow> keeps_elem T (list_all P) (dec_slice elem zero)"
  unfolding keeps_elem_def [of T "list_all P"]
proof (intro allI impI)
  fix r v r'
  assume "keeps_elem T P elem" "P zero" "list_all P r" "strings_are T v" "dec_slice elem zero v r = Some r'"
  then show "list_all P r'" by (cases v) (auto dest: dec_elems_keeps)
qed

lemma keeps_pointer:
  "keeps_elem T P elem \<Longrightarrow> P zero \<Longrightarrow> keeps_elem T (pred_option P) (dec_pointer elem zero)"
  unfolding keeps_elem_def [of T "pred_option P"]
proof (intro allI impI)
  fix r v r'
  assume "keeps_elem T P elem" "P zero" "pred_option P r" "strings_are T v" "dec_pointer elem zero v r = Some r'"
  then show "pred_option P r'"
    by (cases v; cases r) (auto dest: keeps_elemD)
qed

lemma keeps_string: "keeps_elem T T dec_string"
  by (auto simp: keeps_elem_def elim!: dec_string.elims)

lemma Atoi_int64: "Atoi s = Some i \<Longrightarrow> int64_ok i"
  by (auto simp: Atoi_def Let_def split: if_splits)

lemma keeps_int: "keeps_elem T int64_ok dec_int"
  by (auto simp: keeps_elem_def Atoi_int64 elim!: dec_int.elims)

lemma keeps_bool: "keeps_elem T (\<lambda>_. True) dec_bool"
  by (simp add: keeps_elem_def)

text \<open>A field function is a chain of tests on the name, each followed by one store.\<close>

lemma keeps_skip: "keeps T P (\<lambda>r k v. Some r)"
  by (simp add: keeps_def)

lemma keeps_test:
  assumes "keeps T P f" "keeps T P g"
  shows "keeps T P (\<lambda>r k v. if name_matches n k then f r k v else g r k v)"
  unfolding keeps_def
proof (intro allI impI)
  fix r k v r'
  assume "P r" "strings_are T v" "(if name_matches n k then f r k v else g r k v) = Some r'"
  then show "P r'" using assms by (cases "name_matches n k") (auto dest: keepsD)
qed

lemma keeps_store:
  assumes "keeps_elem T Q elem" "\<And>r. P r \<Longrightarrow> Q (sel r)" "\<And>r x. P r \<Longrightarrow> Q x \<Longrightarrow> P (upd r x)"
  shows "keeps T P (\<lambda>r k v. set_field (upd r) (elem v (sel r)))"
  using assms by (auto simp: keeps_def set_field_def dest: keeps_elemD)

lemmas keeps_chain = keeps_test keeps_skip keeps_store [OF keeps_string] keeps_store [OF keeps_int]
  keeps_store [OF keeps_bool]

section \<open>The payload structs\<close>

definition commit_typed :: "(go_string \<Rightarrow> bool) \<Rightarrow> Commit \<Rightarrow> bool" where
  "commit_typed T c = list_all T [cm_ID c, cm_Message c, cm_AuthorEmail c]"

definition push_typed :: "(go_string \<Rightarrow> bool) \<Rightarrow> PushEvent \<Rightarrow> bool" where
  "push_typed T p =
     (list_all T [pe_ObjectKind p, pe_Ref p, pe_Before p, pe_After p, pe_UserEmail p,
        pe_UserName p] \<and> int64_ok (pe_ProjectID p) \<and> list_all (commit_typed T) (pe_Commits p))"

definition user_typed :: "(go_string \<Rightarrow> bool) \<Rightarrow> User \<Rightarrow> bool" where
  "user_typed T u = list_all T [us_Email u, us_Name u]"

definition project_typed :: "(go_string \<Rightarrow> bool) \<Rightarrow> Project \<Rightarrow> bool" where
  "project_typed T p = int64_ok (pr_ID p)"

definition attributes_typed :: "(go_string \<Rightarrow> bool) \<Rightarrow> MRObjectAttributes \<Rightarrow> bool" where
  "attributes_typed T a =
     (list_all T [oa_Title a, oa_SourceBranch a, oa_TargetBranch a, oa_State a, oa_Action a] \<and>
      int64_ok (oa_IID a) \<and> int64_ok (oa_AuthorID a))"

definition merge_request_typed :: "(go_string \<Rightarrow> bool) \<Rightarrow> MergeRequestEvent \<Rightarrow> bool" where
  "merge_request_typed T m =
     (T (me_ObjectKind m) \<and> user_typed T (me_User m) \<and> project_typed T (me_Project m) \<and>
      attributes_typed T (me_ObjectAttributes m))"

definition emoji_attributes_typed :: "(go_string \<Rightarrow> bool) \<Rightarrow> EmojiAttributes \<Rightarrow> bool" where
  "emoji_attributes_typed T a =
     (int64_ok (ea_ID a) \<and> T (ea_Name a) \<and> T (ea_AwardableType a) \<and>
      int64_ok (ea_AwardableID a))"

definition mr_from_emoji_typed :: "(go_string \<Rightarrow> bool) \<Rightarrow> MRFromEmoji \<Rightarrow> bool" where
  "mr_from_emoji_typed T m =
     (int64_ok (mf_IID m) \<and>
      list_all T [mf_Title m, mf_TargetBranch m, mf_State m, mf_SourceBranch m])"

definition emoji_typed :: "(go_string \<Rightarrow> bool) \<Rightarrow> EmojiEvent \<Rightarrow> bool" where
  "emoji_typed T e =
     (T (ee_ObjectKind e) \<and> T (ee_EventType e) \<and> user_typed T (ee_User e) \<and>
      project_typed T (ee_Project e) \<and> emoji_attributes_typed T (ee_ObjectAttributes e) \<and>
      pred_option (mr_from_emoji_typed T) (ee_MergeRequest e))"

lemmas typed_defs = commit_typed_def push_typed_def user_typed_def project_typed_def
  attributes_typed_def merge_request_typed_def emoji_attributes_typed_def mr_from_emoji_typed_def
  emoji_typed_def

lemma keeps_commit: "keeps T (commit_typed T) commit_field"
proof -
  have "keeps T (commit_typed T) author_field"
    unfolding author_field_def [abs_def] by (intro keeps_chain) (simp_all add: typed_defs)
  then have "keeps T (commit_typed T) (\<lambda>c k v. dec_struct author_field v c)"
    using keeps_elemD [OF keeps_struct] by (fastforce simp: keeps_def [of T _ "\<lambda>c k v. dec_struct author_field v c"])
  then show ?thesis
    unfolding commit_field_def [abs_def] by (intro keeps_chain) (simp_all add: typed_defs)
qed

lemma keeps_user: "keeps T (user_typed T) user_field"
  unfolding user_field_def [abs_def] by (intro keeps_chain) (simp_all add: typed_defs)

lemma keeps_project: "keeps T (project_typed T) project_field"
  unfolding project_field_def [abs_def] by (intro keeps_chain) (simp_all add: typed_defs)

lemma keeps_attributes: "keeps T (attributes_typed T) attributes_field"
  unfolding attributes_field_def [abs_def] by (intro keeps_chain) (simp_all add: typed_defs)

lemma keeps_merge_request: "keeps T (merge_request_typed T) merge_request_field"
  unfolding merge_request_field_def [abs_def]
  by (intro keeps_chain keeps_store [OF keeps_struct [OF keeps_user]]
      keeps_store [OF keeps_struct [OF keeps_project]]
      keeps_store [OF keeps_struct [OF keeps_attributes]])
    (simp_all add: merge_request_typed_def)

lemma keeps_emoji_attributes: "keeps T (emoji_attributes_typed T) emoji_attributes_field"
  unfolding emoji_attributes_field_def [abs_def] by (intro keeps_chain) (simp_all add: typed_defs)

lemma keeps_mr_from_emoji: "keeps T (mr_from_emoji_typed T) mr_from_emoji_field"
  unfolding mr_from_emoji_field_def [abs_def] by (intro keeps_chain) (simp_all add: typed_defs)

lemma unmarshal_keeps:
  assumes "unmarshal field zero raw = Inr r" "keeps T P field" "P zero"
    and "\<And>v. json_parse raw = Some v \<Longrightarrow> strings_are T v"
  shows "P r"
  using assms keeps_elemD [OF keeps_struct [OF assms(2)]]
  by (auto simp: unmarshal_def split: option.splits)

section \<open>The event\<close>

definition event_typed :: "(go_string \<Rightarrow> bool) \<Rightarrow> NormalizedEvent \<Rightarrow> bool" where
  "event_typed T e =
     (EventType_str (ev_Type e) \<in> set event_types \<and>
      int64_ok (MRIID e) \<and> int64_ok (ProjectID e) \<and>
      list_all T ([ev_ID e, IdempotencyKey e, SourceBranch e, TargetBranch e, MRTitle e,
        AuthorEmail e, EmojiName e, MRState e] @ CommitMessages e @ IssueKeys_of e))"

lemma int64_ok_0 [simp]: "int64_ok 0"
  by (simp add: int64_ok_def int64_min_def int64_max_def)

lemma parsed_event_types [simp]:
  "''push'' \<in> set event_types" "''emoji_award'' \<in> set event_types" "''unrecognized'' \<in> set event_types"
  "EventType_str (classifyMR a d) \<in> set event_types"
  using classifyMR_type [of a d] by (auto simp: event_types_def)

text \<open>What the argument needs of a condition on strings.\<close>

locale text_type =
  fixes T :: "go_string \<Rightarrow> bool"
  assumes T_append: "T s \<Longrightarrow> T (s @ t) = T t"
    and T_ascii: "list_all (\<lambda>c. 0 < char_code c \<and> char_code c < 128) s \<Longrightarrow> T s"
begin

lemma T_Nil [simp]: "T []"
  by (rule T_ascii) simp

lemma T_show_int [simp]: "T (show_int i)"
  using show_nat_digits [of "nat i"] show_nat_digits [of "nat (- i)"]
  by (intro T_ascii) (auto simp: show_int_def list_all_iff is_digit_def)

lemma T_lit [simp]: "T ''push:''" "T ''mr:''" "T ''emoji:''" "T '':''" "T ''refs/heads/''"
  by (rule T_ascii; simp)+

lemma T_concat [simp]: "T s \<Longrightarrow> T t \<Longrightarrow> T (s @ t)"
  by (simp add: T_append)

lemma T_TrimPrefix: "T s \<Longrightarrow> T p \<Longrightarrow> T (TrimPrefix s p)"
  using T_append [of p "drop (length p) s"]
  by (auto simp: TrimPrefix_def HasPrefix_def) (metis append_take_drop_id)

lemma T_keys:
  "T b \<Longrightarrow> T c \<Longrightarrow> T (push_key p b c)" "T b \<Longrightarrow> T (mr_key p i b)" "T b \<Longrightarrow> T (emoji_key p b i)"
  using T_lit by (auto simp: push_key_def mr_key_def emoji_key_def simp del: append.simps)

lemma keeps_push: "keeps T (push_typed T) push_field"
  unfolding push_field_def [abs_def]
  by (intro keeps_chain keeps_store [OF keeps_slice [OF keeps_struct [OF keeps_commit]]])
    (simp_all add: push_typed_def, simp add: zero_commit_def commit_typed_def)

lemma keeps_emoji: "keeps T (emoji_typed T) emoji_field"
  unfolding emoji_field_def [abs_def]
  by (intro keeps_chain keeps_store [OF keeps_struct [OF keeps_user]]
      keeps_store [OF keeps_struct [OF keeps_project]]
      keeps_store [OF keeps_struct [OF keeps_emoji_attributes]]
      keeps_store [OF keeps_pointer [OF keeps_struct [OF keeps_mr_from_emoji]]])
    (simp_all add: emoji_typed_def, simp add: mr_from_emoji_typed_def zero_mr_from_emoji_def)

lemma zero_typed [simp]:
  "push_typed T zero_push" "merge_request_typed T zero_merge_request" "emoji_typed T zero_emoji"
  by (simp_all add: typed_defs zero_push_def zero_merge_request_def zero_user_def zero_project_def
      zero_attributes_def zero_emoji_def zero_emoji_attributes_def)

lemma parsePush_typed:
  assumes "parsePush raw now = Inr ev" "\<And>v. json_parse raw = Some v \<Longrightarrow> strings_are T v"
  shows "event_typed T ev"
proof -
  obtain p where p: "unmarshal push_field zero_push raw = Inr p"
    using assms(1) by (auto simp: parsePush_def split: sum.splits)
  have "push_typed T p" using unmarshal_keeps [OF p keeps_push _ assms(2)] by simp
  with p assms(1) show ?thesis
    by (auto simp: parsePush_def Let_def event_typed_def push_typed_def zero_event_def
        T_TrimPrefix T_keys commitMessages_def commit_typed_def list_all_iff)
qed

lemma parseMR_typed:
  assumes "parseMR raw now = Inr ev" "\<And>v. json_parse raw = Some v \<Longrightarrow> strings_are T v"
  shows "event_typed T ev"
proof -
  obtain m where m: "unmarshal merge_request_field zero_merge_request raw = Inr m"
    using assms(1) by (auto simp: parseMR_def split: sum.splits)
  have "merge_request_typed T m" using unmarshal_keeps [OF m keeps_merge_request _ assms(2)] by simp
  with m assms(1) show ?thesis
    by (auto simp: parseMR_def Let_def event_typed_def merge_request_typed_def user_typed_def
        project_typed_def attributes_typed_def zero_event_def T_keys)
qed

lemma unrecognized_typed: "event_typed T (unrecognized_event raw now)"
  by (simp add: event_typed_def unrecognized_event_def zero_event_def)

lemma parseEmoji_typed:
  assumes "parseEmoji raw now = Inr ev" "\<And>v. json_parse raw = Some v \<Longrightarrow> strings_are T v"
  shows "event_typed T ev"
proof -
  obtain m where m: "unmarshal emoji_field zero_emoji raw = Inr m"
    using assms(1) by (auto simp: parseEmoji_def split: sum.splits)
  have t: "emoji_typed T m" using unmarshal_keeps [OF m keeps_emoji _ assms(2)] by simp
  define mr where "mr = (case ee_MergeRequest m of None \<Rightarrow> zero_mr_from_emoji | Some x \<Rightarrow> x)"
  have "mr_from_emoji_typed T mr"
    using t by (auto simp: mr_def emoji_typed_def split: option.splits)
      (simp add: mr_from_emoji_typed_def zero_mr_from_emoji_def)
  then show ?thesis using t m assms(1) unrecognized_typed unfolding parseEmoji_def
    by (auto simp: Let_def mr_def [symmetric] event_typed_def emoji_typed_def user_typed_def
        project_typed_def emoji_attributes_typed_def mr_from_emoji_typed_def zero_event_def T_keys
        split: if_splits)
qed

lemma Parse_typed:
  assumes "Parse raw now = Inr ev" "\<And>v. json_parse raw = Some v \<Longrightarrow> strings_are T v"
  shows "event_typed T ev"
  using assms parsePush_typed parseMR_typed parseEmoji_typed unrecognized_typed
  unfolding Parse_def by (auto split: sum.splits if_splits)

end

interpretation utf8: text_type utf8_ok
  by unfold_locales (auto simp: utf8_ok_append list_all_iff intro!: utf8_ok_ascii)

interpretation column: text_type text_ok
  by unfold_locales (auto simp: text_ok_append intro!: text_ok_ascii)

lemma Parse_types:
  assumes "Parse raw now = Inr ev"
  shows "event_typed utf8_ok ev" "jsonb_ok raw \<Longrightarrow> event_typed text_ok ev"
  using utf8.Parse_typed [OF assms] column.Parse_typed [OF assms] json_parse_strings by blast+

section \<open>Which parsed events the table of events takes\<close>

lemma issue_keys_text_ok:
  assumes "project_key_ok P" "CHR ''K'' \<notin> set (map upper_char P)" "CHR 0x00 \<notin> set P"
    and "k \<in> set (issue_keys P text)"
  shows "text_ok k"
proof -
  obtain ds where k: "k = map upper_char P @ ''-'' @ ds" "list_all is_digit ds"
    using assms(4) unfolding set_issue_keys [OF assms(1,2)] by (auto simp: mentions_def occurs_def)
  have "0 < char_code (upper_char c) \<and> char_code (upper_char c) < 128" if "c \<in> set P" for c
  proof -
    have "char_code c \<noteq> 0" using that assms(3) nul_iff [of c] by metis
    then show ?thesis
      using that assms(1) by (auto simp: project_key_ok_def ascii_def list_all_iff of_char_upper is_lower_def)
  qed
  then have "text_ok (map upper_char P)" by (intro text_ok_ascii) (simp add: list_all_iff)
  moreover have "text_ok (''-'' @ ds)"
    using k(2) by (intro text_ok_ascii) (auto simp: list_all_iff is_digit_def)
  ultimately show ?thesis using column.T_concat k(1) by blast
qed

lemma first_keys_text_ok:
  assumes "project_key_ok P" "CHR ''K'' \<notin> set (map upper_char P)" "CHR 0x00 \<notin> set P"
  shows "list_all text_ok (first_keys P texts)"
  using issue_keys_text_ok [OF assms] by (auto simp: first_keys_def list_all_iff split: option.splits)

lemma event_storable_iff:
  assumes "Parse raw now = Inr ev" "list_all text_ok ks"
  shows "storable (ev\<lparr>IssueKeys_of := ks\<rparr>) \<longleftrightarrow>
    jsonb_ok raw \<and> int4_ok (MRIID ev) \<and> int4_ok (ProjectID ev)"
  using Parse_types(2) [OF assms(1)] Parse_type(4) [OF assms(1)] assms(2)
  by (auto simp: storable_def event_texts_ok_def event_typed_def)

end
