(* ===== verification/Deliveries.thy ===== *)
theory Deliveries
  imports Webhook Payload_Types
begin

text \<open>
  What a delivery to the webhook endpoint amounts to: which requests are accepted, what an
  accepted one leaves in the tables and in which order it calls the plugins, and that a
  delivery is processed once however often it is sent.
\<close>

section \<open>Acceptance\<close>

text \<open>
  Everything the handler looks at before it writes: the token, the body, the parsed event,
  its key, the filter of pushes, the target state and the issue keys.
\<close>

definition acceptable ::
    "env \<Rightarrow> webhookHandler \<Rightarrow> request \<Rightarrow> world \<Rightarrow> NormalizedEvent \<Rightarrow> WorkflowState \<Rightarrow> bool" where
  "acceptable env h rq w ev t =
     (rq_Token rq = WebhookSecret (wh_gitlabCfg h) \<and>
      (case read_body rq of Inl _ \<Rightarrow> False
       | Inr raw \<Rightarrow> Parse raw (clock_at env (n_clock w)) = Inr ev \<and> push_ok h ev raw) \<and>
      ev_Type ev \<noteq> EventUnrecognized \<and> \<not> has_event_key (w_db w) (IdempotencyKey ev) \<and>
      event_target h ev = Some t \<and> first_keys (ProjectKey (wh_workflow h)) (event_texts ev) \<noteq> [])"

definition with_keys :: "webhookHandler \<Rightarrow> NormalizedEvent \<Rightarrow> NormalizedEvent" where
  "with_keys h ev = ev\<lparr>IssueKeys_of := first_keys (ProjectKey (wh_workflow h)) (event_texts ev)\<rparr>"

lemma with_keys_simps [simp]:
  "IdempotencyKey (with_keys h ev) = IdempotencyKey ev" "ev_Type (with_keys h ev) = ev_Type ev"
  "MRIID (with_keys h ev) = MRIID ev" "ProjectID (with_keys h ev) = ProjectID ev"
  "IssueKeys_of (with_keys h ev) = first_keys (ProjectKey (wh_workflow h)) (event_texts ev)"
  by (simp_all add: with_keys_def)

lemma admit_acceptable:
  assumes "admit env h rq w = (Inr (ev', t), w')" "cache_ok (w_patterns w)"
  obtains ev where "acceptable env h rq w ev t" "ev' = with_keys h ev"
proof -
  obtain raw ev where *: "rq_Token rq = WebhookSecret (wh_gitlabCfg h)" "read_body rq = Inr raw"
    "Parse raw (clock_at env (n_clock w)) = Inr ev" "ev_Type ev \<noteq> EventUnrecognized"
    "\<not> has_event_key (w_db w) (IdempotencyKey ev)" "push_ok h ev raw"
    "event_target h ev = Some t" "IssueKeys_of ev' \<noteq> []"
    "ev' = ev\<lparr>IssueKeys_of := first_keys (ProjectKey (wh_workflow h)) (event_texts ev)\<rparr>"
    using admit_Inr [OF assms] by metis
  then show thesis by (intro that [of ev]) (simp_all add: acceptable_def with_keys_def)
qed

lemma acceptable_admit:
  assumes "acceptable env h rq w ev t" "cache_ok (w_patterns w)" "no_faults env"
    and "storable (with_keys h ev)"
  shows "fst (admit env h rq w) = Inr (with_keys h ev, t)"
proof -
  let ?w1 = "snd (Now env w)"
  obtain raw where raw: "read_body rq = Inr raw" "Parse raw (clock_at env (n_clock w)) = Inr ev"
    "push_ok h ev raw"
    using assms(1) by (auto simp: acceptable_def split: sum.splits)
  obtain w2 where w2: "ExistsByIdempotencyKey env (IdempotencyKey ev) ?w1 = (Inr False, w2)"
    "same_setup ?w1 w2"
    using assms(1,3,4) by (simp add: ExistsByIdempotencyKey_def db_call_def no_faults_def
        acceptable_def same_setup_def storable_def event_texts_ok_def)
  then have "cache_ok (w_patterns w2)" using assms(2) by (simp add: same_setup_def Now_def)
  from admit_event_Inr(1) [OF this, of h ev "with_keys h ev" t] assms(1)
  have "fst (admit_event h ev w2) = Inr (with_keys h ev, t)"
    by (simp add: acceptable_def with_keys_def)
  then show ?thesis
    using assms(1) raw w2(1)
    by (auto simp: admit_def acceptable_def Let_def ValidateToken_iff push_ok_def push_ignored_def
        IsNewBranch_def)
qed

lemma admit_Inl_status:
  "admit env h rq w = (Inl r, w') \<Longrightarrow> rp_Status r \<in> {200, 400, 401, 413, 500} \<and>
    (rp_Status r = 401 \<longleftrightarrow> rq_Token rq \<noteq> WebhookSecret (wh_gitlabCfg h)) \<and>
    (rp_Status r = 401 \<longrightarrow> w' = w)"
  by (auto simp: admit_def admit_event_def Let_def ValidateToken_iff writeError_def writeJSON_def
      ignored_def split: if_splits sum.splits prod.splits)

text \<open>A reply is decided at admission, or comes with the writes of an admitted event.\<close>

lemma handleGitLab_cases:
  assumes "handleGitLab env h rq w = (r, w')"
  obtains (refused) "admit env h rq w = (Inl r, w')"
  | (admitted) ev t w1 where "admit env h rq w = (Inr (ev, t), w1)"
      "persist_and_enqueue env h ev t w1 = (r, w')"
proof -
  obtain a w1 where "admit env h rq w = (a, w1)" by fastforce
  with assms show thesis
    by (cases a) (auto simp: handleGitLab_admit commit_def intro: refused admitted)
qed

lemma acceptable_parsed:
  "acceptable env h rq w ev t \<Longrightarrow>
    \<exists>raw. read_body rq = Inr raw \<and> Parse raw (clock_at env (n_clock w)) = Inr ev"
  by (auto simp: acceptable_def split: sum.splits)

lemma acceptable_identity:
  "acceptable env h rq w ev t \<Longrightarrow> read_body rq = Inr raw \<Longrightarrow>
    \<exists>i. payload_identity raw = Some i \<and> IdempotencyKey ev = identity_key i"
  by (auto simp: acceptable_def intro: Parse_identity)

lemma accept_writes:
  assumes "no_faults env" "fresh_ids env w" "int4_ok (wh_maxAttempts h)"
    and "admit env h rq w = (Inr (with_keys h ev, t), w1)" "acceptable env h rq w ev t"
    and "storable (with_keys h ev)"
  shows "\<exists>ev' js w'. handleGitLab env h rq w = (accepted ev' (WorkflowState_str t), w') \<and>
    w_db w' = w_db w\<lparr>events := events (w_db w) @ [event_row ev'],
      jobs := jobs (w_db w) @ map job_row js\<rparr> \<and>
    ev' = (with_keys h ev)\<lparr>ev_ID := uuid_at env (n_uuid w), ReceivedAt := ReceivedAt ev'\<rparr> \<and>
    map job_IssueKey js = first_keys (ProjectKey (wh_workflow h)) (event_texts ev) \<and>
    list_all (new_job (ev_ID ev') t (wh_maxAttempts h)) js"
proof -
  note f = admit_frame [OF assms(4)]
  have "EventType_str (ev_Type (with_keys h ev)) \<in> set event_types"
    using acceptable_parsed [OF assms(5)] Parse_type(1) by (fastforce simp: event_types_def)
  moreover have "fresh_ids env w1" using assms(2) f by (simp add: fresh_ids_def)
  moreover have "\<not> has_event_key (w_db w1) (IdempotencyKey (with_keys h ev))"
    using assms(5) f by (simp add: acceptable_def)
  ultimately show ?thesis
    using persist_and_enqueue_ok [of env "with_keys h ev" t h w1] assms(1,3,6) f
      event_target_text [of h ev t] assms(5)
    by (simp add: handleGitLab_admit assms(4) commit_def acceptable_def)
qed

section \<open>Order of the calls\<close>

lemma enqueue_jobs_trace:
  "\<exists>js. w_trace (enqueue_jobs env eid t m ks w) = w_trace w @ map JobInsertSent js \<and>
    map job_IssueKey js = ks \<and> list_all (new_job eid t m) js"
proof (induction ks arbitrary: w)
  case (Cons k ks)
  obtain j w1 where j: "NewJob env eid k t m w = (j, w1)" by fastforce
  note nj = NewJobD [OF j]
  obtain js where "w_trace (enqueue_jobs env eid t m ks (snd (Enqueue env j w1))) =
      w_trace (snd (Enqueue env j w1)) @ map JobInsertSent js"
    "map job_IssueKey js = ks" "list_all (new_job eid t m) js"
    using Cons.IH [of "snd (Enqueue env j w1)"] by blast
  then show ?case
    using nj by (intro exI [where x = "j # js"]) (simp add: j split_beta)
qed simp

definition handler_calls :: "EventHandler list \<Rightarrow> NormalizedEvent \<Rightarrow> effect list" where
  "handler_calls phs ev = map (\<lambda>k. EventHandlerCalled k ev ((phs ! k) ev)) [0..<length phs]"

lemma persist_and_enqueue_trace:
  assumes "persist_and_enqueue env h ev t w = (r, w')"
  shows "\<exists>ev'. IdempotencyKey ev' = IdempotencyKey ev \<and> IssueKeys_of ev' = IssueKeys_of ev \<and>
    (rp_Status r = 500 \<and> w_trace w' = w_trace w @ [EventInsertSent ev'] \<or>
     rp_Status r = 202 \<and> (\<exists>js. w_trace w' = w_trace w @ EventInsertSent ev' #
       handler_calls (EventHandlers (w_registry w)) ev' @ map JobInsertSent js \<and>
       map job_IssueKey js = IssueKeys_of ev \<and> list_all (new_job (ev_ID ev') t (wh_maxAttempts h)) js))"
proof -
  obtain i w1 where i: "NewString env w = (i, w1)" by fastforce
  obtain now w2 where n: "Now env w1 = (now, w2)" by fastforce
  define ev' where "ev' = ev\<lparr>ev_ID := i, ReceivedAt := now\<rparr>"
  obtain x w3 where x: "event_Insert env ev' w2 = (x, w3)" by fastforce
  have w2: "w_trace w2 = w_trace w" "w_registry w2 = w_registry w"
    using NowD [OF n] i by (auto simp: NewString_def same_setup_def)
  have w3: "w_trace w3 = w_trace w @ [EventInsertSent ev']" "w_registry w3 = w_registry w"
    using repo_trace(1) [of env ev' w2] repo_setup(1) [of w2 env ev'] w2
    by (simp_all add: x same_setup_def)
  show ?thesis
  proof (cases x)
    case (Inl e)
    then have "r = writeError 500 ''internal error'' \<and> w' = w3"
      using assms by (simp add: persist_and_enqueue_def i n x Let_def ev'_def [symmetric])
    with w3 show ?thesis
      by (intro exI [where x = ev']) (simp add: writeError_def writeJSON_def, simp add: ev'_def)
  next
    case (Inr u)
    let ?w4 = "call_event_handlers 0 (EventHandlers (w_registry w3)) ev' w3"
    have w': "r = accepted ev' (WorkflowState_str t)"
      "w' = enqueue_jobs env (ev_ID ev') t (wh_maxAttempts h) (IssueKeys_of ev') ?w4"
      using assms Inr by (simp_all add: persist_and_enqueue_def i n x Let_def ev'_def [symmetric])
    obtain js where js: "w_trace w' = w_trace ?w4 @ map JobInsertSent js"
      "map job_IssueKey js = IssueKeys_of ev'"
      "list_all (new_job (ev_ID ev') t (wh_maxAttempts h)) js"
      using enqueue_jobs_trace unfolding w' by blast
    have "w_trace w' = w_trace w @ EventInsertSent ev' #
        handler_calls (EventHandlers (w_registry w)) ev' @ map JobInsertSent js"
      using js(1) w3 by (simp add: call_event_handlers_frame handler_calls_def)
    moreover have "rp_Status r = 202" by (simp add: w'(1) accepted_def writeJSON_def)
    moreover have "IssueKeys_of ev' = IssueKeys_of ev" "IdempotencyKey ev' = IdempotencyKey ev"
      by (simp_all add: ev'_def)
    ultimately show ?thesis using js by auto
  qed
qed

section \<open>A sample delivery\<close>

definition sample_config :: Config where
  "sample_config = defaults
     \<lparr>GitLab := \<lparr>WebhookSecret = ''s3'', gl_APIToken = '''', gl_BaseURL = ''''\<rparr>\<rparr>"

definition sample_handler :: webhookHandler where
  "sample_handler =
     \<lparr>wh_gitlabCfg = GitLab sample_config, wh_workflow = Workflow sample_config,
      wh_maxAttempts = wk_MaxAttempts (Worker sample_config)\<rparr>"

definition sample_request :: request where
  "sample_request = \<lparr>rq_Token = ''s3'', rq_Body = sample_push, rq_BodyError = None\<rparr>"

lemma sample_handler_simps [simp]:
  "WebhookSecret (wh_gitlabCfg sample_handler) = ''s3''"
  "ProjectKey (wh_workflow sample_handler) = ''RIS''" "wh_maxAttempts sample_handler = 5"
  "wf_DevelopBranch (wh_workflow sample_handler) = ''develop''"
  "wf_MasterBranch (wh_workflow sample_handler) = ''master''"
  by (simp_all add: sample_handler_def sample_config_def defaults_def)

lemma read_sample_request: "read_body sample_request = Inr sample_push"
proof -
  have "length sample_push \<le> 100" by code_simp
  then show ?thesis by (simp add: read_body_def sample_request_def maxWebhookBodyBytes_def)
qed

lemma sample_push_keys: "first_keys ''RIS'' (event_texts (sample_push_event now)) = [''RIS-3'']"
proof -
  have "issue_keys ''RIS'' ''RIS-3-ris-3'' = [''RIS-3'']" by code_simp
  then show ?thesis
    by (simp add: first_keys_def event_texts_def sample_push_event_def)
qed

lemma sample_acceptable:
  assumes "\<not> has_event_key (w_db w) (IdempotencyKey (sample_push_event 0))"
  shows "acceptable env sample_handler sample_request w
    (sample_push_event (clock_at env (n_clock w))) StateInProgress"
  using assms
  by (simp add: acceptable_def read_sample_request Parse_sample_push push_ok_def
      unmarshal_sample_push sample_push_keys event_target_def
      Classify_def classifyPush_def)
    (simp add: sample_request_def sample_push_event_def)

lemma sample_storable: "storable (with_keys sample_handler (sample_push_event now))"
proof -
  let ?texts = "[''RIS-3'', IdempotencyKey (sample_push_event 0), ''RIS-3-ris-3'']"
  have "list_all text_ok ?texts" "jsonb_ok sample_push" by code_simp+
  moreover have "IdempotencyKey (sample_push_event now) = IdempotencyKey (sample_push_event 0)"
    by (simp add: sample_push_event_def)
  ultimately show ?thesis
    by (simp add: storable_def event_texts_ok_def int4_ok_def sample_push_keys)
      (simp add: with_keys_def sample_push_event_def zero_event_def)
qed

lemma sample_no_faults [simp]: "no_faults sample_env"
  by (simp add: no_faults_def)

lemma sample_fresh [simp]: "fresh_ids sample_env empty_world"
  using sample_ids_inj by (simp add: fresh_ids_def has_event_id_def has_job_id_def empty_db_def)

lemma handleGitLab_cache:
  assumes "cache_ok (w_patterns w)" "handleGitLab env h rq w = (r, w')"
  shows "cache_ok (w_patterns w')"
  using assms(2)
proof (cases rule: handleGitLab_cases)
  case refused
  from admit_cache [OF assms(1) this] show ?thesis .
next
  case (admitted ev t w1)
  from admit_cache [OF assms(1) admitted(1)] persist_and_enqueue_setup [of w1 env h ev t]
  show ?thesis by (simp add: admitted(2) same_setup_def)
qed

lemma sample_delivery:
  obtains r w1 where "handleGitLab sample_env sample_handler sample_request empty_world = (r, w1)"
    "rp_Status r = 202" "has_event_key (w_db w1) (IdempotencyKey (sample_push_event 0))"
proof -
  have "\<not> has_event_key (w_db empty_world) k" for k by (simp add: has_event_key_def empty_db_def)
  then have a: "acceptable sample_env sample_handler sample_request empty_world (sample_push_event 0)
      StateInProgress"
    using sample_acceptable [of empty_world sample_env] by simp
  obtain x w1 where adm: "admit sample_env sample_handler sample_request empty_world = (x, w1)"
    by (rule prod.exhaust)
  have "cache_ok (w_patterns empty_world)" by simp
  from acceptable_admit [OF a this sample_no_faults sample_storable] adm
  have "admit sample_env sample_handler sample_request empty_world =
      (Inr (with_keys sample_handler (sample_push_event 0), StateInProgress), w1)"
    by (simp only: fst_conv)
  from accept_writes [OF sample_no_faults sample_fresh _ this a sample_storable]
  obtain ev' js w' where "handleGitLab sample_env sample_handler sample_request empty_world =
      (accepted ev' (WorkflowState_str StateInProgress), w')"
    "events (w_db w') = [event_row ev']"
    "ev' = (with_keys sample_handler (sample_push_event 0))
      \<lparr>ev_ID := uuid_at sample_env 0, ReceivedAt := ReceivedAt ev'\<rparr>"
    by (auto simp: empty_db_def int4_ok_def)
  note e = this
  have "IdempotencyKey ev' = IdempotencyKey (sample_push_event 0)"
    by (subst e(3)) simp
  with e(1,2) show thesis
    by (intro that [of "accepted ev' (WorkflowState_str StateInProgress)" w'])
      (simp_all add: accepted_def writeJSON_def has_event_key_def)
qed

section \<open>Properties\<close>

text \<open>
  C16. Every event the parser returns is well typed, whatever bytes the payload holds: its type is
  one the table knows, its numbers are 64-bit integers and all its texts are valid UTF-8. So
  whether the table of events takes it, with the issue keys found in it, depends on the payload
  alone: it does exactly when the raw payload is a JSONB value and the two numbers fit an INTEGER
  column. The texts of the event add no condition of their own.
\<close>

theorem parsed_events_are_typed:
  assumes "Parse raw now = Inr ev" and "project_key_ok (ProjectKey (wh_workflow h))"
    and "CHR ''K'' \<notin> set (map upper_char (ProjectKey (wh_workflow h)))"
    and "CHR 0x00 \<notin> set (ProjectKey (wh_workflow h))"
  shows "event_typed utf8_ok ev \<and>
    (storable (with_keys h ev) \<longleftrightarrow> jsonb_ok raw \<and> int4_ok (MRIID ev) \<and> int4_ok (ProjectID ev))"
  using Parse_types(1) [OF assms(1)] event_storable_iff [OF assms(1) first_keys_text_ok [OF assms(2-4)]]
  by (simp add: with_keys_def)

theorem parsed_events_are_typed_witness:
  "event_typed utf8_ok (sample_push_event 0) \<and> storable (with_keys sample_handler (sample_push_event 0))"
proof -
  have "project_key_ok ''RIS''" "CHR ''K'' \<notin> set (map upper_char ''RIS'')"
    by (simp_all add: project_key_ok_def ascii_def is_digit_def upper_char_def is_lower_def)
  moreover have "jsonb_ok sample_push" by code_simp
  moreover have "MRIID (sample_push_event 0) = 0" "ProjectID (sample_push_event 0) = 4"
    by (simp_all add: sample_push_event_def zero_event_def)
  ultimately show ?thesis
    using parsed_events_are_typed [OF Parse_sample_push [of 0], of sample_handler]
    by (simp add: int4_ok_def)
qed

text \<open>
  C9. Without database faults, with patterns cached as compiled, values that fit their columns
  and identifiers that are new, a request is answered 202 exactly when it is acceptable: it
  has the secret, a readable body of at most 5 MB that parses to a recognized event with a
  new key, passes the push filter, has a target state and names an issue.
\<close>

theorem accepted_iff_acceptable:
  assumes "no_faults env" "cache_ok (w_patterns w)" "fresh_ids env w" "int4_ok (wh_maxAttempts h)"
    and "\<forall>raw now ev. read_body rq = Inr raw \<longrightarrow> Parse raw now = Inr ev \<longrightarrow>
      storable (with_keys h ev)"
  shows "rp_Status (fst (handleGitLab env h rq w)) = 202 \<longleftrightarrow> (\<exists>ev t. acceptable env h rq w ev t)"
proof
  assume acc: "rp_Status (fst (handleGitLab env h rq w)) = 202"
  obtain r w' where g: "handleGitLab env h rq w = (r, w')" by fastforce
  then show "\<exists>ev t. acceptable env h rq w ev t"
  proof (cases rule: handleGitLab_cases)
    case refused
    from admit_Inl_status [OF this] acc g show ?thesis by simp
  next
    case (admitted ev t w1)
    show ?thesis by (rule admit_acceptable [OF admitted(1) assms(2)]) blast
  qed
next
  assume "\<exists>ev t. acceptable env h rq w ev t"
  then obtain ev t where a: "acceptable env h rq w ev t" by blast
  from acceptable_parsed [OF this] assms(5)
  have st: "storable (with_keys h ev)" by blast
  obtain w1 where w1: "admit env h rq w = (Inr (with_keys h ev, t), w1)"
    using acceptable_admit [OF a assms(2,1) st] by (metis prod.collapse)
  show "rp_Status (fst (handleGitLab env h rq w)) = 202"
    using accept_writes [OF assms(1,3,4) w1 a st] by (auto simp: accepted_def writeJSON_def)
qed

theorem accepted_iff_acceptable_witness:
  "rp_Status (fst (handleGitLab sample_env sample_handler sample_request empty_world)) = 202"
proof -
  have "\<forall>raw now ev. read_body sample_request = Inr raw \<longrightarrow> Parse raw now = Inr ev \<longrightarrow>
      storable (with_keys sample_handler ev)"
    by (simp add: read_sample_request Parse_sample_push sample_storable)
  then show ?thesis
    using accepted_iff_acceptable [of sample_env empty_world sample_handler sample_request]
      sample_acceptable [of empty_world sample_env]
    by (auto simp: sample_fresh sample_no_faults int4_ok_def has_event_key_def empty_db_def)
qed

text \<open>
  C10. An acceptable request, in the same circumstances, is answered with the event's new
  identifier, its issue keys and its target state, and the tables then hold one more event,
  with that identifier and the payload's key, and one pending job per issue key in the order
  of the keys, each for that event and target, with no attempts made; nothing else changes.
\<close>

theorem accepted_delivery:
  assumes "no_faults env" "cache_ok (w_patterns w)" "fresh_ids env w" "int4_ok (wh_maxAttempts h)"
    and "acceptable env h rq w ev t" "storable (with_keys h ev)"
  shows "\<exists>ev' js w'. handleGitLab env h rq w = (accepted ev' (WorkflowState_str t), w') \<and>
    w_db w' = w_db w\<lparr>events := events (w_db w) @ [event_row ev'],
      jobs := jobs (w_db w) @ map job_row js\<rparr> \<and>
    ev' = (with_keys h ev)\<lparr>ev_ID := uuid_at env (n_uuid w), ReceivedAt := ReceivedAt ev'\<rparr> \<and>
    map job_IssueKey js = first_keys (ProjectKey (wh_workflow h)) (event_texts ev) \<and>
    list_all (new_job (ev_ID ev') t (wh_maxAttempts h)) js"
proof -
  obtain w1 where w1: "admit env h rq w = (Inr (with_keys h ev, t), w1)"
    using acceptable_admit [OF assms(5,2,1,6)] by (metis prod.collapse)
  show ?thesis by (rule accept_writes [OF assms(1,3,4) w1 assms(5,6)])
qed

theorem accepted_delivery_witness:
  "\<exists>j. jobs (w_db (snd (handleGitLab sample_env sample_handler sample_request empty_world))) =
     [job_row j] \<and> job_IssueKey j = ''RIS-3'' \<and> TargetState j = StateInProgress"
proof -
  have "acceptable sample_env sample_handler sample_request empty_world (sample_push_event 0)
      StateInProgress"
    using sample_acceptable [of empty_world sample_env] by (simp add: has_event_key_def empty_db_def)
  note this sample_storable [of 0]
  then show ?thesis
    using accepted_delivery [of sample_env empty_world sample_handler sample_request
        "sample_push_event 0" StateInProgress]
    by (auto simp: sample_fresh sample_no_faults int4_ok_def sample_push_keys empty_db_def new_job_def)
qed

text \<open>
  C11. Whatever fails, a delivery changes the tables only if it is acceptable, and then at most
  by inserting the one event, unless its key is there, and by appending jobs of it, for some of
  its issue keys in their order; the audit log stays.
\<close>

theorem delivery_effect:
  assumes "cache_ok (w_patterns w)"
  shows "w_db (snd (handleGitLab env h rq w)) = w_db w \<or>
    (\<exists>ev t ev'. acceptable env h rq w ev t \<and>
      delivery ev' t (wh_maxAttempts h) (w_db w) (w_db (snd (handleGitLab env h rq w))) \<and>
      ev' = (with_keys h ev)\<lparr>ev_ID := uuid_at env (n_uuid w), ReceivedAt := ReceivedAt ev'\<rparr>)"
proof -
  obtain r w' where g: "handleGitLab env h rq w = (r, w')" by fastforce
  then show ?thesis
  proof (cases rule: handleGitLab_cases)
    case refused
    with admit_frame [OF refused] show ?thesis by (simp add: g)
  next
    case (admitted ev t w1)
    note f = admit_frame [OF admitted(1)]
    obtain ev0 where "acceptable env h rq w ev0 t" "ev = with_keys h ev0"
      using admit_acceptable [OF admitted(1) assms] .
    moreover obtain ev' where "delivery ev' t (wh_maxAttempts h) (w_db w1) (w_db w')"
      "ev' = ev\<lparr>ev_ID := uuid_at env (n_uuid w1), ReceivedAt := ReceivedAt ev'\<rparr>"
      using persist_and_enqueue_delivery [OF admitted(2)] .
    ultimately show ?thesis using f by (auto simp: g)
  qed
qed

theorem delivery_effect_witness:
  "w_db (snd (handleGitLab sample_env sample_handler (sample_request\<lparr>rq_Token := ''x''\<rparr>) empty_world))
    = empty_db"
proof -
  have "\<not> acceptable sample_env sample_handler (sample_request\<lparr>rq_Token := ''x''\<rparr>) empty_world ev t"
    for ev t by (simp add: acceptable_def)
  then show ?thesis
    using delivery_effect [of empty_world sample_env sample_handler
        "sample_request\<lparr>rq_Token := ''x''\<rparr>"] by simp
qed

text \<open>
  C12. A request is answered 401 exactly when its token is not the secret, and then nothing at
  all has happened; every reply other than 202 and 500 leaves the tables as they were and has
  called no plugin.
\<close>

theorem refused_requests_change_nothing:
  assumes "handleGitLab env h rq w = (r, w')"
  shows "(rp_Status r = 401 \<longleftrightarrow> rq_Token rq \<noteq> WebhookSecret (wh_gitlabCfg h)) \<and>
    (rp_Status r = 401 \<longrightarrow> w' = w) \<and>
    (rp_Status r \<notin> {202, 500} \<longrightarrow> w_db w' = w_db w \<and> w_trace w' = w_trace w) \<and>
    rp_Status r \<in> {200, 202, 400, 401, 413, 500}"
  using assms
proof (cases rule: handleGitLab_cases)
  case refused
  from admit_Inl_status [OF this] admit_frame [OF this] show ?thesis by auto
next
  case (admitted ev t w1)
  have "rp_Status r \<in> {202, 500}"
    using persist_and_enqueue_delivery [OF admitted(2)] by blast
  moreover have "rq_Token rq = WebhookSecret (wh_gitlabCfg h)"
    using admitted(1) by (auto simp: admit_def ValidateToken_iff split: if_splits)
  ultimately show ?thesis by auto
qed

theorem refused_requests_change_nothing_witness:
  "snd (handleGitLab sample_env sample_handler (sample_request\<lparr>rq_Token := ''x''\<rparr>) empty_world)
    = empty_world"
proof -
  obtain r w' where g: "handleGitLab sample_env sample_handler (sample_request\<lparr>rq_Token := ''x''\<rparr>)
      empty_world = (r, w')" by fastforce
  from refused_requests_change_nothing [OF g] show ?thesis by (simp add: g)
qed

text \<open>
  C7. Once a delivery has been answered 202, no delivery with the same identity is accepted
  again, by any handler and whatever fails, as long as no event is deleted: it changes no table
  and calls no plugin.
\<close>

theorem redelivery_is_ignored:
  assumes "handleGitLab env h rq w = (r, w1)" "rp_Status r = 202" "cache_ok (w_patterns w)"
    and "set (events (w_db w1)) \<subseteq> set (events (w_db w2))"
    and "read_body rq = Inr raw" "read_body rq2 = Inr raw2"
    and "payload_identity raw2 = payload_identity raw"
    and "handleGitLab env2 h2 rq2 w2 = (r2, w3)" "cache_ok (w_patterns w2)"
  shows "rp_Status r2 \<noteq> 202 \<and> w_db w3 = w_db w2 \<and> w_trace w3 = w_trace w2"
proof -
  have "has_event_key (w_db w2) (IdempotencyKey ev2)" if a: "acceptable env2 h2 rq2 w2 ev2 t2" for ev2 t2
  proof -
    obtain ev t v where 1: "admit env h rq w = (Inr (ev, t), v)"
      "persist_and_enqueue env h ev t v = (r, w1)"
      using assms(1,2) by (cases rule: handleGitLab_cases) (auto dest: admit_Inl_status)
    obtain ev0 where ev0: "acceptable env h rq w ev0 t" "ev = with_keys h ev0"
      using admit_acceptable [OF 1(1) assms(3)] .
    have "has_event_key (w_db w1) (IdempotencyKey ev0)"
      using persist_and_enqueue_delivery [OF 1(2)] assms(2) ev0(2) with_keys_simps(1) by metis
    moreover have "IdempotencyKey ev2 = IdempotencyKey ev0"
      using acceptable_identity [OF a assms(6)] acceptable_identity [OF ev0(1) assms(5)] assms(7)
      by auto
    ultimately show ?thesis using assms(4) by (auto simp: has_event_key_def)
  qed
  then have no: "\<not> acceptable env2 h2 rq2 w2 ev2 t2" for ev2 t2
    by (auto simp: acceptable_def)
  from assms(8) show ?thesis
  proof (cases rule: handleGitLab_cases)
    case refused
    from admit_Inl_status [OF this] admit_frame [OF this] show ?thesis by auto
  next
    case (admitted ev t v)
    with no show ?thesis using admit_acceptable [OF admitted(1) assms(9)] by metis
  qed
qed

theorem redelivery_is_ignored_witness:
  "\<exists>r w. handleGitLab sample_env sample_handler sample_request empty_world = (r, w) \<and>
     rp_Status r = 202 \<and>
     rp_Status (fst (handleGitLab sample_env sample_handler sample_request w)) \<noteq> 202 \<and>
     w_db (snd (handleGitLab sample_env sample_handler sample_request w)) = w_db w"
proof -
  obtain r w where 1: "handleGitLab sample_env sample_handler sample_request empty_world = (r, w)"
    "rp_Status r = 202" using sample_delivery .
  obtain r2 w2 where 2: "handleGitLab sample_env sample_handler sample_request w = (r2, w2)"
    by fastforce
  have c: "cache_ok (w_patterns empty_world)" by simp
  from redelivery_is_ignored [OF 1 c subset_refl read_sample_request read_sample_request refl 2
      handleGitLab_cache [OF c 1(1)]]
  show ?thesis using 1 by (simp add: 2)
qed



section \<open>Races\<close>

lemma enqueue_jobs_orphans:
  "\<not> has_event_id (w_db w) eid \<Longrightarrow> w_db (enqueue_jobs env eid t m ks w) = w_db w"
proof (induction ks arbitrary: w)
  case (Cons k ks)
  obtain j w1 where j: "NewJob env eid k t m w = (j, w1)" by fastforce
  note nj = NewJobD [OF j]
  have "w_db (snd (Enqueue env j w1)) = w_db w"
    using Enqueue_db [of env j w1] insert_job_Inr(2) [of j "w_db w1"] nj(1,4) Cons.prems
    by (auto simp: new_job_def)
  with Cons j show ?case by (simp add: split_beta)
qed simp

text \<open>
  C8. Two deliveries of one payload can both pass the idempotency check before either is stored.
  The one that commits second is answered 202 as well, with the identifier of an event that
  is not stored: its insert does nothing, the plugins are called once more, its jobs are sent
  for the missing event and none is stored. The tables do not change.
\<close>

theorem racing_delivery_reports_no_event:
  assumes "no_faults env" "storable ev" "EventType_str (ev_Type ev) \<in> set event_types"
    and "has_event_key (w_db w) (IdempotencyKey ev)" "fresh_ids env w"
    and "persist_and_enqueue env h ev t w = (r, w')"
  shows "w_db w' = w_db w \<and>
    (\<exists>ev' js. r = accepted ev' (WorkflowState_str t) \<and> \<not> has_event_id (w_db w') (ev_ID ev') \<and>
      w_trace w' = w_trace w @ EventInsertSent ev' #
        handler_calls (EventHandlers (w_registry w)) ev' @ map JobInsertSent js \<and>
      map job_IssueKey js = IssueKeys_of ev \<and> list_all (\<lambda>j. job_EventID j = ev_ID ev') js)"
proof -
  obtain i w1 where i: "NewString env w = (i, w1)" by fastforce
  obtain now w2 where n: "Now env w1 = (now, w2)" by fastforce
  define ev' where "ev' = ev\<lparr>ev_ID := i, ReceivedAt := now\<rparr>"
  have w2: "w_db w2 = w_db w" "w_trace w2 = w_trace w" "w_registry w2 = w_registry w"
    "i = uuid_at env (n_uuid w)"
    using NowD [OF n] i by (auto simp: NewString_def same_setup_def)
  have "sql_insert_event ev' (w_db w) = Inr (w_db w)"
    using assms(2-4) by (simp add: sql_insert_event_def ev'_def storable_def event_texts_ok_def)
  then obtain w3 where w3: "event_Insert env ev' w2 = (Inr (), w3)" "w_db w3 = w_db w"
    using assms(1) w2(1) by (simp add: event_Insert_def db_exec_def no_faults_def Now_def emit_def
        wrap_err_def Let_def)
  have reg: "w_trace w3 = w_trace w @ [EventInsertSent ev']" "w_registry w3 = w_registry w"
    using repo_trace(1) [of env ev' w2] repo_setup(1) [of w2 env ev'] w2
    by (simp_all add: w3 same_setup_def)
  let ?w4 = "call_event_handlers 0 (EventHandlers (w_registry w3)) ev' w3"
  have w': "r = accepted ev' (WorkflowState_str t)"
    "w' = enqueue_jobs env (ev_ID ev') t (wh_maxAttempts h) (IssueKeys_of ev') ?w4"
    using assms(6) by (simp_all add: persist_and_enqueue_def i n w3 Let_def ev'_def [symmetric])
  have no: "\<not> has_event_id (w_db w) (ev_ID ev')"
    using assms(5) w2(4) by (simp add: fresh_ids_def ev'_def)
  then have db: "w_db w' = w_db w"
    using w3 by (simp add: w' enqueue_jobs_orphans call_event_handlers_frame)
  obtain js where js: "w_trace w' = w_trace ?w4 @ map JobInsertSent js"
    "map job_IssueKey js = IssueKeys_of ev'"
    "list_all (new_job (ev_ID ev') t (wh_maxAttempts h)) js"
    using enqueue_jobs_trace unfolding w' by blast
  have "w_trace w' = w_trace w @ EventInsertSent ev' #
      handler_calls (EventHandlers (w_registry w)) ev' @ map JobInsertSent js"
    using js(1) reg by (simp add: call_event_handlers_frame handler_calls_def)
  moreover have "map job_IssueKey js = IssueKeys_of ev" using js(2) by (simp add: ev'_def)
  moreover have "list_all (\<lambda>j. job_EventID j = ev_ID ev') js"
    using js(3) by (auto simp: list_all_iff new_job_def)
  ultimately show ?thesis using db no w'(1) by auto
qed

lemma sample_admitted:
  assumes "w_db w = empty_db" "cache_ok (w_patterns w)"
  obtains w' where "admit sample_env sample_handler sample_request w =
      (Inr (with_keys sample_handler (sample_push_event (clock_at sample_env (n_clock w))),
        StateInProgress), w')"
    "w_db w' = empty_db" "cache_ok (w_patterns w')" "n_uuid w' = n_uuid w"
proof -
  have key: "IdempotencyKey (sample_push_event now) = IdempotencyKey (sample_push_event 0)" for now
    by (simp add: sample_push_event_def)
  have "\<not> has_event_key (w_db w) k" for k using assms(1) by (simp add: has_event_key_def empty_db_def)
  from sample_acceptable [OF this, of sample_env]
  have a: "acceptable sample_env sample_handler sample_request w
    (sample_push_event (clock_at sample_env (n_clock w))) StateInProgress" .
  obtain w' where adm: "admit sample_env sample_handler sample_request w =
      (Inr (with_keys sample_handler (sample_push_event (clock_at sample_env (n_clock w))),
        StateInProgress), w')"
    using acceptable_admit [OF a assms(2) sample_no_faults sample_storable] by (metis prod.collapse)
  from admit_Inr [OF adm assms(2)] have c: "cache_ok (w_patterns w')" by blast
  from admit_frame [OF adm] assms(1) c show thesis by (intro that [OF adm]) simp_all
qed

theorem racing_delivery_reports_no_event_witness:
  "\<exists>a b w1 w2 r3 w3 r4 w4.
     admit sample_env sample_handler sample_request empty_world = (Inr a, w1) \<and>
     admit sample_env sample_handler sample_request w1 = (Inr b, w2) \<and>
     commit sample_env sample_handler (Inr a, w2) = (r3, w3) \<and>
     commit sample_env sample_handler (Inr b, w3) = (r4, w4) \<and>
     rp_Status r3 = 202 \<and> rp_Status r4 = 202 \<and> length (events (w_db w4)) = 1"
proof -
  let ?ev = "\<lambda>w. with_keys sample_handler (sample_push_event (clock_at sample_env (n_clock w)))"
  obtain w1 where 1: "admit sample_env sample_handler sample_request empty_world =
      (Inr (?ev empty_world, StateInProgress), w1)"
    "w_db w1 = empty_db" "cache_ok (w_patterns w1)" "n_uuid w1 = n_uuid empty_world"
    using sample_admitted [of empty_world] by auto
  obtain w2 where 2: "admit sample_env sample_handler sample_request w1 =
      (Inr (?ev w1, StateInProgress), w2)"
    "w_db w2 = empty_db" "n_uuid w2 = n_uuid empty_world"
    using sample_admitted [OF 1(2,3)] 1(4) by metis
  have fresh: "fresh_ids sample_env w2" using sample_fresh 2 by (simp add: fresh_ids_def)
  have type: "EventType_str (ev_Type (?ev w)) \<in> set event_types" for w
    by (simp add: sample_push_event_def event_types_def)
  have "\<not> has_event_key (w_db w2) (IdempotencyKey (?ev empty_world))"
    by (simp add: 2 has_event_key_def empty_db_def)
  from persist_and_enqueue_ok [OF sample_no_faults type sample_storable, of StateInProgress
      sample_handler, OF _ _ this fresh] 2(2)
  obtain ev' js w3 where 3: "persist_and_enqueue sample_env sample_handler (?ev empty_world)
      StateInProgress w2 = (accepted ev' (WorkflowState_str StateInProgress), w3)"
    "events (w_db w3) = [event_row ev']"
    "ev' = (?ev empty_world)\<lparr>ev_ID := uuid_at sample_env (n_uuid w2), ReceivedAt := ReceivedAt ev'\<rparr>"
    by (auto simp: int4_ok_def empty_db_def)
  have fresh3: "fresh_ids sample_env w3"
    using persist_and_enqueue_fresh [OF fresh, of sample_handler "?ev empty_world" StateInProgress]
    by (simp only: 3(1) snd_conv)
  have "IdempotencyKey ev' = IdempotencyKey (?ev w1)"
    by (subst 3(3)) (simp add: sample_push_event_def)
  then have seen: "has_event_key (w_db w3) (IdempotencyKey (?ev w1))"
    by (simp add: has_event_key_def 3(2))
  obtain r4 w4 where 4: "persist_and_enqueue sample_env sample_handler (?ev w1) StateInProgress w3
      = (r4, w4)" by fastforce
  from racing_delivery_reports_no_event [OF sample_no_faults sample_storable type seen fresh3 4]
  have "rp_Status r4 = 202 \<and> w_db w4 = w_db w3" by (auto simp: accepted_def writeJSON_def)
  moreover have "rp_Status (accepted ev' (WorkflowState_str StateInProgress)) = 202"
    by (simp add: accepted_def writeJSON_def)
  moreover have "commit sample_env sample_handler (Inr (?ev empty_world, StateInProgress), w2) =
      (accepted ev' (WorkflowState_str StateInProgress), w3)"
    "commit sample_env sample_handler (Inr (?ev w1, StateInProgress), w3) = (r4, w4)"
    by (simp_all only: commit_def prod.case sum.case 3(1) 4)
  ultimately show ?thesis using 1(1) 2(1) 3(2) by (metis length_Cons list.size(3) One_nat_def)
qed

section \<open>Replies\<close>

text \<open>Every reply but an acceptance is a map of strings.\<close>

definition text_reply :: "reply \<Rightarrow> bool" where
  "text_reply r = (\<exists>ms. rp_Document r = Fields ms \<and> list_all (\<lambda>(k, v). \<exists>s. v = JStr s) ms)"

lemma admit_text_reply: "admit env h rq w = (Inl r, w') \<Longrightarrow> text_reply r"
  by (auto simp: admit_def admit_event_def Let_def writeError_def writeJSON_def ignored_def
      text_reply_def split: if_splits sum.splits prod.splits)

lemma persist_and_enqueue_reply:
  assumes "persist_and_enqueue env h ev t w = (r, w')"
  shows "text_reply r \<and> rp_Status r = 500 \<or>
    (\<exists>ev'. r = accepted ev' (WorkflowState_str t) \<and> IssueKeys_of ev' = IssueKeys_of ev)"
proof -
  obtain i w1 where i: "NewString env w = (i, w1)" by fastforce
  obtain now w2 where n: "Now env w1 = (now, w2)" by fastforce
  let ?ev = "ev\<lparr>ev_ID := i, ReceivedAt := now\<rparr>"
  obtain x w3 where x: "event_Insert env ?ev w2 = (x, w3)" by fastforce
  show ?thesis
  proof (cases x)
    case (Inl e)
    then show ?thesis
      using assms by (auto simp: persist_and_enqueue_def i n x Let_def text_reply_def writeError_def
          writeJSON_def)
  next
    case (Inr u)
    then have "r = accepted ?ev (WorkflowState_str t)"
      using assms by (simp add: persist_and_enqueue_def i n x Let_def)
    then show ?thesis by (intro disjI2 exI [where x = ?ev]) simp
  qed
qed

lemma text_reply_body:
  assumes "text_reply r"
  obtains ms where "rp_Document r = Fields ms"
    "json_parse (response_body r) = Some (fix_json (JObj (sort_key fst ms)))"
proof -
  obtain ms where ms: "rp_Document r = Fields ms" "list_all (\<lambda>(k, v). \<exists>s. v = JStr s) ms"
    using assms by (auto simp: text_reply_def)
  then have "numbers_read (JObj ms)" "nesting (JObj ms) \<le> max_nesting_depth"
    by (force simp: list_all_iff fold_max_le max_nesting_depth_def)+
  from parse_marshal_map [OF this, of "[CHR 0x0A]"] ms(1) show thesis
    by (intro that [of ms]) (simp_all add: response_body_def)
qed

lemma accepted_body:
  "json_parse (response_body (accepted ev s)) =
    Some (JObj [(''event_id'', JStr (utf8_fix (ev_ID ev))),
       (''issue_keys'', JArr (map (\<lambda>k. JStr (utf8_fix k)) (IssueKeys_of ev))),
       (''status'', JStr ''accepted''), (''target_state'', JStr (utf8_fix s))])"
proof -
  let ?ms = "[(''status'', JStr ''accepted''), (''event_id'', JStr (ev_ID ev)),
    (''issue_keys'', JArr (map JStr (IssueKeys_of ev))), (''target_state'', JStr s)]"
  have names: "utf8_fix ''status'' = ''status''" "utf8_fix ''event_id'' = ''event_id''"
    "utf8_fix ''issue_keys'' = ''issue_keys''" "utf8_fix ''target_state'' = ''target_state''"
    "utf8_fix ''accepted'' = ''accepted''"
    "\<not> (''status'' :: go_string) \<le> ''event_id''" "\<not> (''status'' :: go_string) \<le> ''issue_keys''"
    "(''status'' :: go_string) \<le> ''target_state''" "(''event_id'' :: go_string) \<le> ''issue_keys''"
    by code_simp+
  have "numbers_read (JObj ?ms)" "nesting (JObj ?ms) \<le> max_nesting_depth"
    by (auto simp: list_all_iff fold_max_le max_nesting_depth_def)
  from parse_marshal_map [OF this, of "[CHR 0x0A]"] show ?thesis
    by (simp_all add: accepted_def writeJSON_def response_body_def names comp_def)
qed



section \<open>Awards\<close>

text \<open>Nothing the handler does depends on what the trace holds.\<close>

lemma Enqueue_w_trace:
  "Enqueue env j (w\<lparr>w_trace := t\<rparr>) =
    (fst (Enqueue env j w), (snd (Enqueue env j w))\<lparr>w_trace := t @ [JobInsertSent j]\<rparr>)"
  by (auto simp: Enqueue_def wrap_err_def db_exec_def Now_def emit_def Let_def
      intro!: world.equality split: fault.split sum.split)

lemma enqueue_jobs_w_trace:
  "\<exists>tr. enqueue_jobs env eid s m ks (w\<lparr>w_trace := t\<rparr>) = (enqueue_jobs env eid s m ks w)\<lparr>w_trace := tr\<rparr>"
proof (induction ks arbitrary: w t)
  case Nil
  show ?case by auto
next
  case (Cons k ks)
  obtain j w1 where j: "NewJob env eid k s m w = (j, w1)" by fastforce
  then have j': "NewJob env eid k s m (w\<lparr>w_trace := t\<rparr>) = (j, w1\<lparr>w_trace := t\<rparr>)"
    by (auto simp: NewJob_def NewString_def Now_def Let_def)
  show ?case using Cons.IH by (simp add: j j' split_beta Enqueue_w_trace)
qed

lemma call_event_handlers_shape:
  "\<exists>tr. call_event_handlers i phs ev w = w\<lparr>w_trace := tr\<rparr>"
proof (induction i phs ev w rule: call_event_handlers.induct)
  case (1 i ev w)
  have "w = w\<lparr>w_trace := w_trace w\<rparr>" by simp
  then show ?case unfolding call_event_handlers.simps ..
next
  case (2 i ph phs ev w)
  then show ?case by (auto simp: emit_def)
qed

lemma event_Insert_MRState:
  "event_Insert env (ev\<lparr>MRState := s\<rparr>) w =
    (fst (event_Insert env ev w),
     (snd (event_Insert env ev w))\<lparr>w_trace := w_trace w @ [EventInsertSent (ev\<lparr>MRState := s\<rparr>)]\<rparr>)"
proof -
  have "sql_insert_event (ev\<lparr>MRState := s\<rparr>) = sql_insert_event ev"
    by (rule ext) (simp add: sql_insert_event_def event_texts_ok_def event_row_def)
  then show ?thesis
    by (auto simp: event_Insert_def wrap_err_def db_exec_def Now_def emit_def Let_def
      intro!: world.equality split: fault.split sum.split)
qed

lemma persist_and_enqueue_MRState:
  "\<exists>tr. persist_and_enqueue env h (ev\<lparr>MRState := s\<rparr>) t w =
    (fst (persist_and_enqueue env h ev t w), (snd (persist_and_enqueue env h ev t w))\<lparr>w_trace := tr\<rparr>)"
proof -
  obtain i w1 where i: "NewString env w = (i, w1)" by fastforce
  obtain now w2 where n: "Now env w1 = (now, w2)" by fastforce
  define ev' where "ev' = ev\<lparr>ev_ID := i, ReceivedAt := now\<rparr>"
  have ev's: "ev\<lparr>MRState := s, ev_ID := i, ReceivedAt := now\<rparr> = ev'\<lparr>MRState := s\<rparr>"
    by (simp add: ev'_def)
  obtain x w3 where x: "event_Insert env ev' w2 = (x, w3)" by fastforce
  then obtain tr where xs: "event_Insert env (ev'\<lparr>MRState := s\<rparr>) w2 = (x, w3\<lparr>w_trace := tr\<rparr>)"
    using event_Insert_MRState [of env s ev' w2] by simp
  show ?thesis
  proof (cases x)
    case (Inl e)
    then show ?thesis
      by (auto simp: persist_and_enqueue_def i n Let_def ev's x xs ev'_def [symmetric])
  next
    case (Inr u)
    let ?phs = "EventHandlers (w_registry w3)"
    obtain t1 where 1: "call_event_handlers 0 ?phs ev' w3 = w3\<lparr>w_trace := t1\<rparr>"
      using call_event_handlers_shape by blast
    obtain t2 where 2: "call_event_handlers 0 ?phs (ev'\<lparr>MRState := s\<rparr>) (w3\<lparr>w_trace := tr\<rparr>) =
        w3\<lparr>w_trace := t2\<rparr>"
      using call_event_handlers_shape [of 0 ?phs _ "w3\<lparr>w_trace := tr\<rparr>"] by force
    obtain t3 where "enqueue_jobs env (ev_ID ev') t (wh_maxAttempts h) (IssueKeys_of ev')
          (w3\<lparr>w_trace := t2\<rparr>) =
        (enqueue_jobs env (ev_ID ev') t (wh_maxAttempts h) (IssueKeys_of ev') (w3\<lparr>w_trace := t1\<rparr>))
          \<lparr>w_trace := t3\<rparr>"
      using enqueue_jobs_w_trace [of env "ev_ID ev'" t "wh_maxAttempts h" "IssueKeys_of ev'"
          t2 "w3\<lparr>w_trace := t1\<rparr>"] by auto
    with Inr 1 2 show ?thesis
      by (auto simp: persist_and_enqueue_def i n Let_def ev's x xs ev'_def [symmetric] accepted_def)
  qed
qed

text \<open>
  An award is judged by its emoji alone: the state of the merge request it stands on (open,
  merged, closed) changes neither the reply nor the tables, so the configured emoji on a request
  that is not merged moves the issues to Done as well. (The README and the configuration
  speak of the emoji on a merged request.)
\<close>

lemma award_ignores_merge_state:
  "fst (handleEmojiAward env h (ev\<lparr>MRState := s\<rparr>) w) = fst (handleEmojiAward env h ev w) \<and>
   w_db (snd (handleEmojiAward env h (ev\<lparr>MRState := s\<rparr>) w)) = w_db (snd (handleEmojiAward env h ev w))"
proof -
  obtain tr where "persist_and_enqueue env h (ev\<lparr>MRState := s\<rparr>) StateDone w =
      (fst (persist_and_enqueue env h ev StateDone w),
       (snd (persist_and_enqueue env h ev StateDone w))\<lparr>w_trace := tr\<rparr>)"
    using persist_and_enqueue_MRState by blast
  then show ?thesis by (simp add: handleEmojiAward_def)
qed

end
