(* ===== verification/Lifecycle.thy ===== *)
theory Lifecycle
  imports Startup
begin

text \<open>
  The life of the process after its parts are wired: \<open>main\<close> in \<open>cmd/glsync/main.go\<close> from
  the start of the background loops to its return, with what \<open>Run\<close> of the processor and of
  the reconciler (\<open>internal/worker\<close>) do when they start and when they return.

  The Go runtime panics, and the process dies, when a channel is made with a negative size or
  a ticker with an interval that is not positive. The signal handler stays installed until
  \<open>main\<close> returns; the first signal cancels the context, later ones change nothing.
\<close>

section \<open>Start of the loops\<close>

text \<open>\<open>time.NewTicker\<close> and \<open>make(chan struct{}, n)\<close>: the message of the panic, if any.\<close>

definition NewTicker :: "duration \<Rightarrow> go_string option" where
  "NewTicker d = (if d \<le> 0 then Some ''non-positive interval for NewTicker'' else None)"

definition make_chan :: "int \<Rightarrow> go_string option" where
  "make_chan n = (if n < 0 then Some ''makechan: size out of range'' else None)"

definition processor_Run_start :: "ProcessorConfig \<Rightarrow> go_string option" where
  "processor_Run_start cfg =
     (case make_chan (Concurrency cfg) of
        Some m \<Rightarrow> Some m
      | None \<Rightarrow> NewTicker (PollInterval cfg))"

definition reconciler_Run_start :: "ReconcileConfig \<Rightarrow> go_string option" where
  "reconciler_Run_start cfg = NewTicker (Interval cfg)"

section \<open>States and steps\<close>

datatype part = ProcessorLoop | ReconcilerLoop

datatype phase = Selecting | ShuttingDown | WaitingForWorkers | Exited | Panicked go_string

text \<open>
  The goroutines not yet begun, the loops that run (together the count of \<open>bgWg\<close>), the jobs in
  flight (the count of the processor's \<open>wg\<close>), whether the context is cancelled, what
  \<open>srv.Start\<close> has returned, and where \<open>main\<close> stands.
\<close>

record process_state =
  ps_starting :: "part list"
  ps_running :: "part list"
  ps_in_flight :: nat
  ps_cancelled :: bool
  ps_server :: "go_error option option"
  ps_phase :: phase

definition background_parts :: "'p program \<Rightarrow> part list" where
  "background_parts p =
     ProcessorLoop # (case pg_reconciler p of None \<Rightarrow> [] | Some _ \<Rightarrow> [ReconcilerLoop])"

definition begin_background :: "'p program \<Rightarrow> process_state" where
  "begin_background p =
     \<lparr>ps_starting = background_parts p, ps_running = [], ps_in_flight = 0, ps_cancelled = False,
      ps_server = None, ps_phase = Selecting\<rparr>"

definition part_start :: "'p program \<Rightarrow> part \<Rightarrow> go_string option" where
  "part_start p x =
     (case x of
        ProcessorLoop \<Rightarrow> processor_Run_start (pg_processor p)
      | ReconcilerLoop \<Rightarrow>
          (case pg_reconciler p of None \<Rightarrow> None | Some cfg \<Rightarrow> reconciler_Run_start cfg))"

definition alive :: "process_state \<Rightarrow> bool" where
  "alive s = (case ps_phase s of Exited \<Rightarrow> False | Panicked _ \<Rightarrow> False | _ \<Rightarrow> True)"

text \<open>
  The steps. A loop returns only when the context is cancelled, the processor's only when no
  job is in flight; \<open>main\<close> leaves its \<open>select\<close> when the context is cancelled or the server
  has returned, shuts the server down, and returns when all loops have.
\<close>

inductive life_step :: "'p program \<Rightarrow> process_state \<Rightarrow> process_state \<Rightarrow> bool"
  for p :: "'p program" where
  loop_starts:
    "alive s \<Longrightarrow> ps_starting s = xs @ x # ys \<Longrightarrow> part_start p x = None \<Longrightarrow>
     life_step p s (s\<lparr>ps_starting := xs @ ys, ps_running := x # ps_running s\<rparr>)"
| loop_panics:
    "alive s \<Longrightarrow> ps_starting s = xs @ x # ys \<Longrightarrow> part_start p x = Some m \<Longrightarrow>
     life_step p s (s\<lparr>ps_phase := Panicked m\<rparr>)"
| signal_arrives:
    "alive s \<Longrightarrow> life_step p s (s\<lparr>ps_cancelled := True\<rparr>)"
| job_starts:
    "alive s \<Longrightarrow> ProcessorLoop \<in> set (ps_running s) \<Longrightarrow>
     int (ps_in_flight s) < Concurrency (pg_processor p) \<Longrightarrow>
     life_step p s (s\<lparr>ps_in_flight := Suc (ps_in_flight s)\<rparr>)"
| job_ends:
    "alive s \<Longrightarrow> ps_in_flight s = Suc n \<Longrightarrow> life_step p s (s\<lparr>ps_in_flight := n\<rparr>)"
| loop_returns:
    "alive s \<Longrightarrow> ps_cancelled s \<Longrightarrow> ps_running s = xs @ x # ys \<Longrightarrow>
     x = ProcessorLoop \<longrightarrow> ps_in_flight s = 0 \<Longrightarrow>
     life_step p s (s\<lparr>ps_running := xs @ ys\<rparr>)"
| server_returns:
    "alive s \<Longrightarrow> ps_server s = None \<Longrightarrow>
     life_step p s (s\<lparr>ps_server := Some (Start listen_result)\<rparr>)"
| select_done:
    "ps_phase s = Selecting \<Longrightarrow> ps_cancelled s \<or> ps_server s \<noteq> None \<Longrightarrow>
     life_step p s (s\<lparr>ps_phase := ShuttingDown\<rparr>)"
| shutdown_done:
    "ps_phase s = ShuttingDown \<Longrightarrow> life_step p s (s\<lparr>ps_phase := WaitingForWorkers\<rparr>)"
| main_returns:
    "ps_phase s = WaitingForWorkers \<Longrightarrow> ps_starting s = [] \<Longrightarrow> ps_running s = [] \<Longrightarrow>
     life_step p s (s\<lparr>ps_phase := Exited\<rparr>)"

inductive_cases life_step_elim: "life_step p s s'"

inductive lives :: "'p program \<Rightarrow> process_state \<Rightarrow> bool" for p :: "'p program" where
  begins: "lives p (begin_background p)"
| goes_on: "lives p s \<Longrightarrow> life_step p s s' \<Longrightarrow> lives p s'"

section \<open>Invariant\<close>

text \<open>
  Until the context is cancelled every loop is starting or running; the jobs in flight belong
  to a processor that has not returned; a loop that has started had a valid configuration.
\<close>

definition life_ok :: "'p program \<Rightarrow> process_state \<Rightarrow> bool" where
  "life_ok p s =
     ((\<not> ps_cancelled s \<longrightarrow> ProcessorLoop \<in> set (ps_starting s @ ps_running s)) \<and>
      (0 < ps_in_flight s \<longrightarrow> ProcessorLoop \<in> set (ps_running s)) \<and>
      list_all (\<lambda>x. part_start p x = None) (ps_running s) \<and>
      distinct (ps_starting s @ ps_running s) \<and>
      (ps_phase s = Exited \<longrightarrow> ps_starting s = [] \<and> ps_running s = []) \<and>
      (0 < ps_in_flight s \<longrightarrow> int (ps_in_flight s) \<le> Concurrency (pg_processor p)))"

lemma life_ok_begin: "life_ok p (begin_background p)"
  by (simp add: life_ok_def begin_background_def background_parts_def split: option.split)

lemma life_ok_step: "life_step p s s' \<Longrightarrow> life_ok p s \<Longrightarrow> life_ok p s'"
  by (induction rule: life_step.induct)
    (auto simp: life_ok_def alive_def split: phase.splits)

lemma lives_ok: "lives p s \<Longrightarrow> life_ok p s"
  by (induction rule: lives.induct) (auto intro: life_ok_begin life_ok_step)

section \<open>Ways through the life\<close>

text \<open>The way out: start what is starting, let the jobs end, return the loops, then \<open>main\<close>.\<close>

lemma rtranclp_step: "r\<^sup>*\<^sup>* b c \<Longrightarrow> r a b \<Longrightarrow> r\<^sup>*\<^sup>* a c"
  by (rule converse_rtranclp_into_rtranclp)

lemma drain_jobs:
  "alive s \<Longrightarrow> (life_step p)\<^sup>*\<^sup>* s (s\<lparr>ps_in_flight := 0\<rparr>)"
proof (induction "ps_in_flight s" arbitrary: s)
  case 0
  then have "s\<lparr>ps_in_flight := 0\<rparr> = s" by simp
  then show ?case by simp
next
  case (Suc n)
  let ?s = "s\<lparr>ps_in_flight := n\<rparr>"
  have "(life_step p)\<^sup>*\<^sup>* ?s (?s\<lparr>ps_in_flight := 0\<rparr>)"
    using Suc.prems by (intro Suc.hyps(1)) (simp_all add: alive_def)
  moreover have "life_step p s ?s" using Suc by (intro job_ends) simp_all
  ultimately show ?case by (simp add: rtranclp_step)
qed

lemma start_all:
  "alive s \<Longrightarrow> list_all (\<lambda>x. part_start p x = None) (ps_starting s) \<Longrightarrow>
    \<exists>ys. (life_step p)\<^sup>*\<^sup>* s (s\<lparr>ps_starting := [], ps_running := ys\<rparr>)"
proof (induction "ps_starting s" arbitrary: s)
  case Nil
  then have "s\<lparr>ps_starting := [], ps_running := ps_running s\<rparr> = s" by simp
  then show ?case by (metis rtranclp.rtrancl_refl)
next
  case (Cons x xs)
  let ?s = "s\<lparr>ps_starting := xs, ps_running := x # ps_running s\<rparr>"
  have "alive ?s" "list_all (\<lambda>x. part_start p x = None) (ps_starting ?s)" "xs = ps_starting ?s"
    using Cons.prems Cons.hyps(2) [symmetric] by (simp_all add: alive_def)
  from Cons.hyps(1) [OF this(3,1,2)] obtain ys where
    "(life_step p)\<^sup>*\<^sup>* ?s (?s\<lparr>ps_starting := [], ps_running := ys\<rparr>)" by blast
  moreover have "life_step p s ?s"
    using loop_starts [of s "[]" x xs p] Cons.prems Cons.hyps(2) [symmetric] by simp
  ultimately show ?case by (auto intro: rtranclp_step)
qed

lemma return_all:
  "alive s \<Longrightarrow> ps_cancelled s \<Longrightarrow> ps_in_flight s = 0 \<Longrightarrow>
    (life_step p)\<^sup>*\<^sup>* s (s\<lparr>ps_running := []\<rparr>)"
proof (induction "ps_running s" arbitrary: s)
  case Nil
  then have "s\<lparr>ps_running := []\<rparr> = s" by simp
  then show ?case by simp
next
  case (Cons x xs)
  let ?s = "s\<lparr>ps_running := xs\<rparr>"
  have "(life_step p)\<^sup>*\<^sup>* ?s (?s\<lparr>ps_running := []\<rparr>)"
    using Cons.prems by (intro Cons.hyps(1)) (simp_all add: alive_def)
  moreover have "life_step p s ?s" using loop_returns [of s "[]" x xs p] Cons by simp
  ultimately show ?case by (simp add: rtranclp_step)
qed

lemma leave_main:
  assumes "alive s" "ps_cancelled s" "ps_starting s = []" "ps_running s = []"
  shows "\<exists>s'. (life_step p)\<^sup>*\<^sup>* s s' \<and> ps_phase s' = Exited"
proof -
  have w: "\<exists>s'. (life_step p)\<^sup>*\<^sup>* v s' \<and> ps_phase s' = Exited"
    if "ps_phase v = WaitingForWorkers" "ps_starting v = []" "ps_running v = []" for v
    using r_into_rtranclp [of "life_step p", OF main_returns [OF that]]
    by (intro exI [where x = "v\<lparr>ps_phase := Exited\<rparr>"]) simp
  have d: "\<exists>s'. (life_step p)\<^sup>*\<^sup>* v s' \<and> ps_phase s' = Exited"
    if "ps_phase v = ShuttingDown" "ps_starting v = []" "ps_running v = []" for v
    using shutdown_done [OF that(1), of p] w [of "v\<lparr>ps_phase := WaitingForWorkers\<rparr>"] that
    by (auto intro: rtranclp_step)
  show ?thesis
  proof (cases "ps_phase s")
    case Selecting
    then show ?thesis
      using select_done [of s p] d [of "s\<lparr>ps_phase := ShuttingDown\<rparr>"] assms
      by (auto intro: rtranclp_step)
  qed (use assms d w in \<open>auto simp: alive_def\<close>)
qed

lemma can_exit:
  assumes "alive s" "\<forall>x. part_start p x = None"
  shows "\<exists>s'. (life_step p)\<^sup>*\<^sup>* s s' \<and> ps_phase s' = Exited"
proof -
  let ?s1 = "s\<lparr>ps_cancelled := True\<rparr>"
  have 1: "life_step p s ?s1" using assms(1) by (rule signal_arrives)
  obtain ys where 2: "(life_step p)\<^sup>*\<^sup>* ?s1 (?s1\<lparr>ps_starting := [], ps_running := ys\<rparr>)"
    using start_all [of ?s1 p] assms by (auto simp: alive_def list_all_iff)
  let ?s2 = "?s1\<lparr>ps_starting := [], ps_running := ys\<rparr>"
  have 3: "(life_step p)\<^sup>*\<^sup>* ?s2 (?s2\<lparr>ps_in_flight := 0\<rparr>)"
    using assms(1) by (intro drain_jobs) (simp add: alive_def)
  let ?s3 = "?s2\<lparr>ps_in_flight := 0\<rparr>"
  have 4: "(life_step p)\<^sup>*\<^sup>* ?s3 (?s3\<lparr>ps_running := []\<rparr>)"
    using assms(1) by (intro return_all) (simp_all add: alive_def)
  obtain s' where 5: "(life_step p)\<^sup>*\<^sup>* (?s3\<lparr>ps_running := []\<rparr>) s'" "ps_phase s' = Exited"
    using leave_main [of "?s3\<lparr>ps_running := []\<rparr>" p] assms(1) by (auto simp: alive_def)
  show ?thesis
    using converse_rtranclp_into_rtranclp [of "life_step p", OF 1]
      rtranclp_trans [OF 2 rtranclp_trans [OF 3 rtranclp_trans [OF 4 5(1)]]] 5(2) by blast
qed

lemma panic_reachable:
  assumes "part_start p x = Some m" "x \<in> set (background_parts p)"
  shows "\<exists>s. lives p s \<and> ps_phase s = Panicked m"
proof -
  let ?s = "begin_background p"
  obtain xs ys where "ps_starting ?s = xs @ x # ys"
    using assms(2) by (auto simp: begin_background_def dest: split_list)
  from loop_panics [OF _ this assms(1)] have "life_step p ?s (?s\<lparr>ps_phase := Panicked m\<rparr>)"
    by (simp add: alive_def begin_background_def)
  then show ?thesis using goes_on [OF begins] by fastforce
qed

lemma panic_cause:
  "lives p s \<Longrightarrow> ps_phase s = Panicked m \<Longrightarrow>
    \<exists>x \<in> set (background_parts p). part_start p x = Some m"
proof -
  have parts: "life_step p s s' \<Longrightarrow> set (ps_starting s') \<subseteq> set (ps_starting s)" for s s' :: process_state
    by (induction rule: life_step.induct) auto
  have "lives p s \<Longrightarrow> set (ps_starting s) \<subseteq> set (background_parts p) \<and>
      (ps_phase s = Panicked m \<longrightarrow> (\<exists>x \<in> set (background_parts p). part_start p x = Some m))"
  proof (induction rule: lives.induct)
    case begins
    show ?case by (simp add: begin_background_def)
  next
    case (goes_on s s')
    then have "set (ps_starting s') \<subseteq> set (background_parts p)" using parts by blast
    with goes_on(2,3) show ?case
      by (cases rule: life_step_elim) (auto simp: alive_def)
  qed
  then show "lives p s \<Longrightarrow> ps_phase s = Panicked m \<Longrightarrow>
    \<exists>x \<in> set (background_parts p). part_start p x = Some m" by blast
qed

section \<open>Properties\<close>

text \<open>
  C36. The process returns from \<open>main\<close> only after a signal, with every loop returned and no job
  in flight: jobs are drained before the exit. It also means that a listener that fails (a
  port in use) does not end the process, which goes on working off jobs without a server.
\<close>

theorem exit_is_drained:
  assumes "lives p s" "ps_phase s = Exited"
  shows "ps_cancelled s \<and> ps_in_flight s = 0 \<and> ps_running s = [] \<and> ps_starting s = []"
  using lives_ok [OF assms(1)] assms(2) by (auto simp: life_ok_def)

text \<open>
  C37. While the process is alive and its intervals are valid, it can still come to its exit from
  wherever it stands: no state of the loops, the server and the jobs in flight blocks shutdown
  for good.
\<close>

theorem exit_stays_reachable:
  assumes "lives p s" "alive s" "\<forall>x. part_start p x = None"
  shows "\<exists>s'. lives p s' \<and> ps_phase s' = Exited \<and> (life_step p)\<^sup>*\<^sup>* s s'"
proof -
  obtain s' where s': "(life_step p)\<^sup>*\<^sup>* s s'" "ps_phase s' = Exited"
    using can_exit [OF assms(2,3)] by blast
  from s'(1) assms(1) have "lives p s'" by (induction rule: rtranclp_induct) (auto intro: goes_on)
  with s' show ?thesis by blast
qed

text \<open>
  C38. The configuration is validated at the start, but not its numbers: a process that has come
  through \<open>Load\<close> and \<open>Validate\<close> can die of a panic in a background loop exactly when the
  concurrency is negative, the poll interval is not positive, or the reconciler is enabled
  with an interval that is not positive.
\<close>

theorem panics_exactly_on_bad_numbers:
  assumes "main_start rd ym getenv np path = Running p" "Load rd ym getenv path = Inr cfg"
  shows "(\<exists>s m. lives p s \<and> ps_phase s = Panicked m) \<longleftrightarrow>
    wk_Concurrency (Worker cfg) < 0 \<or> wk_PollInterval (Worker cfg) \<le> 0 \<or>
    (rc_Enabled (Reconcile cfg) \<and> rc_Interval (Reconcile cfg) \<le> 0)"
proof -
  obtain pool where p: "p = wire pool cfg"
    using main_start_Running [OF assms(1)] assms(2) by (metis sum.inject(2))
  have "(\<exists>s m. lives p s \<and> ps_phase s = Panicked m) \<longleftrightarrow>
      (\<exists>x \<in> set (background_parts p). part_start p x \<noteq> None)"
    using panic_reachable panic_cause by fastforce
  also have "\<dots> \<longleftrightarrow> wk_Concurrency (Worker cfg) < 0 \<or> wk_PollInterval (Worker cfg) \<le> 0 \<or>
      (rc_Enabled (Reconcile cfg) \<and> rc_Interval (Reconcile cfg) \<le> 0)"
    by (auto simp: p wire_def background_parts_def part_start_def processor_Run_start_def
        reconciler_Run_start_def make_chan_def NewTicker_def)
  finally show ?thesis .
qed

definition spinning_config :: Config where
  "spinning_config = defaults
     \<lparr>Server := (Server defaults)\<lparr>AdminToken := ''a''\<rparr>,
      Database := (Database defaults)\<lparr>URL := ''u''\<rparr>,
      GitLab := (GitLab defaults)\<lparr>WebhookSecret := ''s''\<rparr>,
      Jira := (Jira defaults)\<lparr>Username := ''n'', ji_APIToken := ''t''\<rparr>,
      Reconcile := (Reconcile defaults)\<lparr>rc_Interval := 0\<rparr>\<rparr>"

lemma spinning_load:
  "Load (\<lambda>_. Inr '''') (\<lambda>_ _. Inr spinning_config) (\<lambda>_. '''') ''f'' = Inr spinning_config"
  by (simp add: Load_def applyEnv_def override_def)

lemma spinning_start:
  "main_start (\<lambda>_. Inr '''') (\<lambda>_ _. Inr spinning_config) (\<lambda>_. '''') (\<lambda>_. Inr ()) ''f'' =
    Running (wire () spinning_config)"
proof -
  have "Validate spinning_config = None" by (simp add: Validate_def spinning_config_def)
  then show ?thesis by (simp add: main_start_def spinning_load)
qed

theorem panics_exactly_on_bad_numbers_witness:
  "Validate spinning_config = None \<and>
   (\<exists>s m. lives (wire () spinning_config) s \<and> ps_phase s = Panicked m)"
  using panics_exactly_on_bad_numbers [OF spinning_start spinning_load]
  by (simp add: spinning_config_def defaults_def Validate_def)

definition quiet_program :: "unit program" where
  "quiet_program = wire () defaults"

lemma quiet_parts: "part_start quiet_program x = None"
  by (cases x) (simp_all add: quiet_program_def wire_def part_start_def processor_Run_start_def
      reconciler_Run_start_def make_chan_def NewTicker_def defaults_def duration_defs)

theorem exit_stays_reachable_witness:
  "\<exists>s. lives quiet_program s \<and> ps_phase s = Exited"
  using exit_stays_reachable [OF begins [of quiet_program]] quiet_parts
  by (auto simp: alive_def begin_background_def)

theorem exit_is_drained_witness:
  "\<exists>s. lives quiet_program s \<and> ps_phase s = Exited \<and> ps_cancelled s \<and> ps_running s = []"
proof -
  have "alive (begin_background quiet_program)" by (simp add: alive_def begin_background_def)
  from can_exit [OF this] quiet_parts obtain s where
    s: "(life_step quiet_program)\<^sup>*\<^sup>* (begin_background quiet_program) s" "ps_phase s = Exited"
    by blast
  from s(1) have "lives quiet_program s"
    by (induction rule: rtranclp_induct) (auto intro: begins goes_on)
  from exit_is_drained [OF this s(2)] this s(2) show ?thesis by blast
qed

end
