(* ===== verification/Spec2Isabelle.thy ===== *)
theory Spec2Isabelle
  imports Job_Machine Deliveries Lifecycle
begin

text \<open>
  A verification development for \<^bold>\<open>glsync\<close>, a service that moves Jira issues when things
  happen in GitLab. GitLab posts webhooks; the service derives issue keys and a target state
  from each, stores the event and one job per issue in PostgreSQL, and a worker turns jobs
  into Jira transitions, with retries, an audit log and a reconciler for jobs that hang.

  \<^bold>\<open>Parts and theories\<close>, in the order of the imports.

  \<^item> \<open>Prelude\<close>: strings as lists of bytes, results (\<open>go_error + 'a\<close>), the strings and strconv
    functions the code calls (\<open>TrimPrefix\<close>, \<open>Join\<close>, \<open>Atoi\<close>, decimal output, \<open>%q\<close>), and the
    lemmas on lists and text all theories share.
  \<^item> \<open>Go_Time\<close>, \<open>Go_Regexp\<close>, \<open>Go_Json\<close>, \<open>Go_Json_Encode\<close>, \<open>Go_Float\<close>: what the code uses of Go's
    time (instants in nanoseconds, zones as fixed offsets, civil dates), regexp (leftmost
    match of the one pattern shape, with case folding and word boundaries on bytes of UTF-8),
    encoding/json (parser, struct decoding by tag, both for \<open>Unmarshal\<close> and for a \<open>Decoder\<close>;
    the encoder, with the proof that the parser reads back what it writes) and float64 parsing
    (round to nearest even). \<open>Go_Float_Format\<close>: the shortest decimal text of a float64, which
    parsing turns back into the same number.
  \<^item> \<open>Issue_Key\<close>, \<open>Webhook_Parser\<close>: \<open>internal/gitlab\<close> (\<open>issuekey.go\<close>, \<open>types.go\<close>, \<open>parser.go\<close>,
    \<open>signature.go\<close>). \<open>Payload_Types\<close>: the types of what the parser returns, and which parsed
    events the table of events takes.
  \<^item> \<open>Domain\<close>: \<open>internal/domain/domain.go\<close>; a string type with constants is a datatype with one
    constructor per constant and one for any other string.
  \<^item> \<open>Workflow\<close>: \<open>internal/workflow\<close> (\<open>rules.go\<close>, \<open>duedate.go\<close>, \<open>transition.go\<close>).
  \<^item> \<open>Config\<close>: \<open>internal/config/config.go\<close>; the YAML decoder is an argument of \<open>Load\<close>.
  \<^item> \<open>Jsonb\<close>, \<open>Tables\<close>, \<open>World\<close>, \<open>Store\<close>: which bytes TEXT and JSONB columns take; the tables
    that the migrations create with the effect of every SQL statement of \<open>internal/store\<close>, a
    value of the wrong range or encoding refused and times cut to microseconds; the plugin
    registry (\<open>plugin/plugin.go\<close>), the environment (clocks, identifiers, faults of the database,
    locks of other transactions, answers of Jira) and the state \<open>world\<close> that every operation takes
    and returns; the three repositories.
  \<^item> \<open>Jira\<close>: \<open>internal/integration/jira\<close> (\<open>types.go\<close>, \<open>client.go\<close>), with the bytes of the
    requests as \<open>json.Marshal\<close> writes them.
  \<^item> \<open>Executor\<close>, \<open>Processor\<close>, \<open>Reconciler\<close>: \<open>internal/worker\<close>.
  \<^item> \<open>Webhook\<close>, \<open>Deliveries\<close>, \<open>Server\<close>: \<open>internal/server\<close>.
  \<^item> \<open>Startup\<close>, \<open>Lifecycle\<close>: \<open>cmd/glsync/main.go\<close> and \<open>internal/store/postgres.go\<close>, with the
    start and end of the two background loops.
  \<^item> \<open>Service\<close>, \<open>Job_Machine\<close>: the running service as a transition system over the parts, and
    the abstract machine of a job that it refines.

  \<^bold>\<open>How the parts interact.\<close> The webhook handler reads and writes the tables through \<open>Store\<close>,
  calls the plugins and creates jobs with \<open>NewJob\<close> of \<open>Processor\<close>. The processor claims jobs
  (\<open>Dequeue\<close>), has the executor send requests through the Jira client, and settles the row. The
  reconciler returns jobs that run for too long. They share nothing but the tables, the
  registry of handlers and the cache of compiled patterns, all in \<open>world\<close>. In \<open>Service\<close> a step
  is one access to this shared state: admission of a delivery, its commit, a poll, the start,
  execution and settling of a job, a round of the reconciler, a crash; between any two of them
  the other parts may act. In \<open>Lifecycle\<close> a step is an event of the process: a loop starts or
  panics or returns, a signal comes, the server returns, \<open>main\<close> goes on.

  \<^bold>\<open>Contracts.\<close> Locales state what a client relies on: \<open>idempotent_log\<close> (the event log for the
  webhook), \<open>row_table\<close> and \<open>claim_queue\<close> (the job table for the worker), \<open>outside_call\<close> (the
  Jira client for the executor), \<open>service_invariant\<close> (a condition kept by every step),
  \<open>text_type\<close> (a condition on strings that the payload parser keeps). Each is interpreted on
  the model's own definitions in the theory that provides them.

  \<^bold>\<open>What the lemmas show.\<close> Issue keys: extraction finds exactly the mentions of the project
  key, in order and once. Parsing: the idempotency key decides the identity of a payload, and
  every parsed event is well typed. Webhook: which requests are accepted, what they write, in
  which order plugins are called, and that redelivery changes nothing, that of two racing
  deliveries the second reports an event that is not stored, and that the bodies of the replies
  decode to their members. Store: claims are bounded, ordered, disjoint. Worker: one transition
  per execution, with a body that decodes to the transition and its fields (the story points to
  the very float64), the exact delays, one mark per job, retries end, the audit trail, and a job
  that never settles because the text of its error was cut inside a character.
  Service: one job per event and issue, bounded concurrency, jobs held once and refinement of
  the job machine while the reconciler is timely, with a run that shows why this is needed.
  Lifecycle: the exit is drained and always reachable, and which settings make a loop panic.
  Server: who may read the admin listings, and that a listing decodes to the rows it shows.

  \<^bold>\<open>Bounds and fuel.\<close> The JSON parser recurses with fuel: twice the length of the input plus
  two, which each value and each list element needs at most (\<open>p_value_fuel\<close>), and its nesting
  is limited to 10000 as in Go. The trimming of space and the sum of duration parts use the
  length of the text as fuel, since every round takes at least one byte. Integers from payloads
  are checked against 64 bits, columns against 32; the product of the delay is taken on 64-bit
  words; durations are integers, with \<open>ParseDuration\<close> rejecting what does not fit.

  \<^bold>\<open>Faults.\<close> A database call may go through, be lost, or take effect and be reported as failed;
  a cancelled context or a broken connection is one of these. Identifiers are what \<open>uuid\<close>
  draws; freshness is a hypothesis where it matters (\<open>fresh_ids\<close>). The database refuses texts
  that are not UTF-8 or hold a NUL and integers that do not fit their column; where a property
  needs the statement to go through, \<open>storable\<close> says so of an event and \<open>recordable\<close> of an error.

  \<^bold>\<open>Not modelled.\<close> Logging, request ids and the middleware of chi and httprate (their decision
  is an input of \<open>NewHandler\<close>); the YAML decoder; pgx; the normal form the server gives a JSONB
  value (the admin listings read it back through \<open>jsonb_value\<close> of the environment) and its
  limits on the range of numbers and on nesting (a statement refused for them is a lost call);
  panics of plugin code; HTTP transport and timeouts (an answer of Jira is any answer or error);
  the negative zero of float64 (it is read, compared and written as 0); changes of the zone
  offset over the year; two processes on one database other than through \<open>locked_at\<close>; down
  migrations, tests, deployment files.
\<close>

section \<open>Work across the components\<close>

text \<open>
  C1. Whatever happens to the service (faults, interleaved deliveries, retries, resets, crashes),
  the tables stay consistent: each idempotency key is stored once, every job belongs to a stored
  event, a job is running exactly while it is marked since when, and there is at most one job
  for an event and an issue.
\<close>

theorem one_job_per_event_and_issue:
  assumes "reachable env p may_reset w s" "db_inv (w_db w)" "fresh_ids env w"
    and "cache_ok (w_patterns w)" "distinct (work_pairs (w_db w))"
  defines "d \<equiv> w_db (sv_world s)"
  shows "distinct (map (\<lambda>r. (job_EventID r, job_IssueKey r)) (jobs d)) \<and>
    distinct (map IdempotencyKey (events d)) \<and>
    (\<forall>r \<in> set (jobs d). job_EventID r \<in> ev_ID ` set (events d) \<and>
       (job_Status r = JobRunning) = (running_since r \<noteq> None))"
proof -
  have "once_ok env s" using once.inv_reachable [OF assms(1)] assms(2-5) by simp
  then have "distinct (work_pairs d)" "db_inv d" by (simp_all add: once_ok_def d_def)
  then show ?thesis by (auto simp: work_pairs_def db_inv_def has_event_id_def)
qed

theorem one_job_per_event_and_issue_witness:
  "\<exists>s. reachable slow_env default_program (\<lambda>_. True) empty_world s \<and>
     distinct (map IdempotencyKey (events (w_db (sv_world s))))"
proof -
  have "fresh_ids slow_env empty_world"
    using sample_ids_inj
    by (simp add: fresh_ids_def has_event_id_def has_job_id_def empty_db_def slow_env_def
        del: sample_env_simps)
  moreover have "db_inv (w_db empty_world)" "distinct (work_pairs (w_db empty_world))"
    using db_inv_empty by (simp_all add: work_pairs_def empty_db_def)
  ultimately show ?thesis
    using one_job_per_event_and_issue [OF start [of slow_env default_program "\<lambda>_. True" empty_world]]
      start [of slow_env default_program "\<lambda>_. True" empty_world]
    by auto
qed

text \<open>
  C35. The processor never runs more jobs at a time than its concurrency, and never holds more
  than that many claimed jobs waiting for a slot.
\<close>

theorem concurrency_is_bounded:
  assumes "reachable env p may_reset w s"
  shows "int (length (sv_executing s) + length (sv_settling s)) \<le> max 0 (Concurrency (pg_processor p)) \<and>
    length (sv_batch s) \<le> nat (Concurrency (pg_processor p))"
  using slots.inv_reachable [OF assms] by (simp add: slots_ok_def in_flight_def)

theorem concurrency_is_bounded_witness:
  "\<exists>s. reachable slow_env default_program (\<lambda>_. True) one_job_world s \<and>
     length (sv_batch s) \<le> 1 \<and> sv_batch s \<noteq> []"
proof -
  obtain w1 r where 1: "step slow_env default_program (\<lambda>_. True) (initial one_job_world)
      ((initial one_job_world)\<lparr>sv_world := w1, sv_batch := [job_of r]\<rparr>)" using first_poll .
  note 2 = next_step [OF start 1]
  from concurrency_is_bounded [OF 2] 2 show ?thesis by (intro exI conjI) (assumption, simp_all)
qed

text \<open>
  C6. Accepted work is done: without faults and with values that fit their columns, after an
  acceptable request there is a job for each of its issue keys, to the event's target state, and
  however its attempts turn out it is completed or dead after at most as many as the configured
  maximum (at least one).
\<close>

theorem accepted_work_is_settled:
  assumes "no_faults env" "cache_ok (w_patterns w)" "fresh_ids env w" "int4_ok (wh_maxAttempts h)"
    and "db_inv (w_db w)" "acceptable env h rq w ev t" "storable (with_keys h ev)"
    and "handleGitLab env h rq w = (r, w1)"
    and "k \<in> set (first_keys (ProjectKey (wh_workflow h)) (event_texts ev))"
    and "wh_maxAttempts h \<le> int (length errs)" "errs \<noteq> []" "list_all recordable errs"
  shows "\<exists>i j. job_lookup (w_db w1) i = Some j \<and> job_IssueKey j = k \<and>
    WorkflowState_str (TargetState j) = WorkflowState_str t \<and>
    (\<exists>j'. job_lookup (w_db (work_off env i errs w1)) i = Some j' \<and> terminal j')"
proof -
  obtain v where v: "admit env h rq w = (Inr (with_keys h ev, t), v)"
    using acceptable_admit [OF assms(6,2,1,7)] by (metis prod.collapse)
  from accept_writes [OF assms(1,3,4) v assms(6,7)] obtain js ev' w' where
    js: "map job_IssueKey js = first_keys (ProjectKey (wh_workflow h)) (event_texts ev)"
      "list_all (new_job (ev_ID ev') t (wh_maxAttempts h)) js"
    and w': "handleGitLab env h rq w = (accepted ev' (WorkflowState_str t), w')"
      "jobs (w_db w') = jobs (w_db w) @ map job_row js"
    by (elim exE conjE) (rule that, assumption, assumption, assumption, simp)
  have w1: "jobs (w_db w1) = jobs (w_db w) @ map job_row js" using w' assms(8) by simp
  have "w1 = snd (persist_and_enqueue env h (with_keys h ev) t v)"
    using assms(8) v by (simp add: handleGitLab_admit commit_def)
  then have inv: "db_inv (w_db w1)"
    using delivery_db_inv [of v env h "with_keys h ev" t] admit_frame [OF v] assms(5) by simp
  have "k \<in> set (map job_IssueKey js)" using assms(9) js(1) by simp
  then obtain j where j: "j \<in> set js" "job_IssueKey j = k" by auto
  then have n: "new_job (ev_ID ev') t (wh_maxAttempts h) j" using js(2) by (simp add: list_all_iff)
  have l: "job_lookup (w_db w1) (job_ID (job_row j)) = Some (job_row j)"
    using inv j(1) w1 by (intro job_lookup_in) (auto simp: db_inv_def)
  have "MaxAttempts (job_row j) - Attempts (job_row j) \<le> int (length errs)"
    using n assms(10) by (simp add: new_job_def)
  from work_off_terminates [OF assms(1) l this assms(11,12)] l n j(2) show ?thesis
    by (intro exI [where x = "job_ID (job_row j)"] exI [where x = "job_row j"])
      (auto simp: new_job_def)
qed

theorem accepted_work_is_settled_witness:
  "\<exists>r w1 i j'. handleGitLab sample_env sample_handler sample_request empty_world = (r, w1) \<and>
     job_lookup (w_db (work_off sample_env i (replicate 5 (Some (Errorf ''down''))) w1)) i = Some j' \<and>
     terminal j'"
proof -
  let ?ev = "sample_push_event 0"
  have "acceptable sample_env sample_handler sample_request empty_world ?ev StateInProgress"
    using sample_acceptable [of empty_world sample_env] by (simp add: has_event_key_def empty_db_def)
  moreover have "int4_ok (wh_maxAttempts sample_handler)" "text_ok ''down''"
    by (simp add: int4_ok_def) code_simp
  moreover have "db_inv (w_db empty_world)" "cache_ok (w_patterns empty_world)"
    by (simp_all add: db_inv_empty)
  moreover obtain r w1 where g:
    "handleGitLab sample_env sample_handler sample_request empty_world = (r, w1)" by fastforce
  moreover have "''RIS-3'' \<in> set (first_keys (ProjectKey (wh_workflow sample_handler)) (event_texts ?ev))"
    by (simp add: sample_push_keys)
  ultimately have "\<exists>i j. job_lookup (w_db w1) i = Some j \<and> job_IssueKey j = ''RIS-3'' \<and>
      WorkflowState_str (TargetState j) = WorkflowState_str StateInProgress \<and>
      (\<exists>j'. job_lookup (w_db (work_off sample_env i (replicate 5 (Some (Errorf ''down''))) w1)) i = Some j' \<and>
        terminal j')"
    by (intro accepted_work_is_settled [OF sample_no_faults _ sample_fresh, where h = sample_handler
          and rq = sample_request and r = r and ev = ?ev]) (simp_all add: sample_storable list_all_iff)
  with g show ?thesis by blast
qed

end
